theory Spec2Isabelle
  imports Complex_Main "HOL-Library.Log_Nat"
begin

section \<open>Secrets detector (services/secrets-detector.ts)\<close>

text \<open>
  JavaScript strings are modelled as \<open>string\<close>; an index into a string is a \<open>nat\<close>.
  The regular-expression engine is an external collaborator: \<open>content.matchAll(pattern.regex)\<close>
  is the parameter \<open>matchAll\<close>, which gives, for the position of a pattern in
  \<open>SECRET_PATTERNS\<close> and a content, the matches as pairs (\<open>match.index\<close>, \<open>match[0]\<close>)
  in the order the engine yields them.
\<close>

datatype confidence = High | Medium | Low

datatype secret_type =
    api_key | bearer_token | jwt_token | oauth_token | password | private_key | ssh_key
  | database_url | aws_credentials | gcp_credentials | azure_credentials | github_token
  | slack_token | stripe_key | openai_key | email | phone_number | credit_card | ssn
  | generic_secret

record location =
  loc_start :: nat
  loc_end :: nat

record detected_secret =
  stype :: secret_type
  spattern :: string
  slocation :: location
  scontext :: string
  sconfidence :: confidence

record secret_detection =
  found :: bool
  secrets :: "detected_secret list"
  sanitized :: "string option"

record secret_pattern =
  ptype :: secret_type
  pconfidence :: confidence
  pdescription :: string

type_synonym regex_engine = "nat \<Rightarrow> string \<Rightarrow> (nat \<times> string) list"

definition LUHN_MIN_DIGITS :: nat where "LUHN_MIN_DIGITS = 13"
definition LUHN_DOUBLE_THRESHOLD :: nat where "LUHN_DOUBLE_THRESHOLD = 9"
definition LUHN_MODULO :: nat where "LUHN_MODULO = 10"
definition SECRET_CONTEXT_CHARS :: nat where "SECRET_CONTEXT_CHARS = 10"
definition MEDIUM_CONFIDENCE_BLOCK_THRESHOLD :: nat where "MEDIUM_CONFIDENCE_BLOCK_THRESHOLD = 3"

fun CONFIDENCE_ORDER :: "confidence \<Rightarrow> nat" where
  "CONFIDENCE_ORDER High = 3"
| "CONFIDENCE_ORDER Medium = 2"
| "CONFIDENCE_ORDER Low = 1"

definition is_digit :: "char \<Rightarrow> bool" where
  "is_digit c = ((48::nat) \<le> of_char c \<and> of_char c \<le> (57::nat))"

definition digit_value :: "char \<Rightarrow> nat" where
  "digit_value c = of_char c - (48::nat)"

text \<open>The loop of \<open>luhnCheck\<close> runs over the digits from the last to the first; the
  flag \<open>isEven\<close> and the running sum \<open>acc\<close> are the loop state.\<close>

fun luhn_loop :: "char list \<Rightarrow> bool \<Rightarrow> nat \<Rightarrow> nat" where
  "luhn_loop [] isEven acc = acc"
| "luhn_loop (d # ds) isEven acc =
     (let digit = digit_value d;
          digit = (if isEven
                   then (let dd = digit * 2
                         in if dd > LUHN_DOUBLE_THRESHOLD then dd - LUHN_DOUBLE_THRESHOLD else dd)
                   else digit)
      in luhn_loop ds (\<not> isEven) (acc + digit))"

definition luhnCheck :: "string \<Rightarrow> bool" where
  "luhnCheck numStr =
     (let digits = filter is_digit numStr
      in if length digits < LUHN_MIN_DIGITS then False
         else luhn_loop (rev digits) False 0 mod LUHN_MODULO = 0)"

definition mk_pattern :: "secret_type \<Rightarrow> confidence \<Rightarrow> string \<Rightarrow> secret_pattern" where
  "mk_pattern t c d = \<lparr>ptype = t, pconfidence = c, pdescription = d\<rparr>"

definition SECRET_PATTERNS :: "secret_pattern list" where
  "SECRET_PATTERNS =
    [ mk_pattern openai_key High ''OpenAI API key'',
      mk_pattern stripe_key High ''Stripe secret key'',
      mk_pattern github_token High ''GitHub token'',
      mk_pattern slack_token High ''Slack token'',
      mk_pattern aws_credentials High ''AWS access key'',
      mk_pattern aws_credentials High ''AWS secret access key'',
      mk_pattern gcp_credentials High ''GCP service account key'',
      mk_pattern azure_credentials High ''Azure storage connection string'',
      mk_pattern jwt_token High ''JWT token'',
      mk_pattern bearer_token High ''Bearer token'',
      mk_pattern private_key High ''Private key (PEM format)'',
      mk_pattern ssh_key High ''SSH public key'',
      mk_pattern database_url High ''Database URL with credentials'',
      mk_pattern api_key Medium ''Generic API key'',
      mk_pattern password Medium ''Password in assignment'',
      mk_pattern password Low ''Password in URL or config'',
      mk_pattern oauth_token Medium ''OAuth token'',
      mk_pattern credit_card Medium ''Credit card number'',
      mk_pattern ssn Medium ''Social Security Number'',
      mk_pattern email Low ''Email address'',
      mk_pattern phone_number Low ''Phone number'',
      mk_pattern generic_secret Medium ''Generic secret in environment variable format'' ]"

text \<open>The string value of a \<open>SecretType\<close>.\<close>

fun type_name :: "secret_type \<Rightarrow> string" where
  "type_name api_key = ''api_key''"
| "type_name bearer_token = ''bearer_token''"
| "type_name jwt_token = ''jwt_token''"
| "type_name oauth_token = ''oauth_token''"
| "type_name password = ''password''"
| "type_name private_key = ''private_key''"
| "type_name ssh_key = ''ssh_key''"
| "type_name database_url = ''database_url''"
| "type_name aws_credentials = ''aws_credentials''"
| "type_name gcp_credentials = ''gcp_credentials''"
| "type_name azure_credentials = ''azure_credentials''"
| "type_name github_token = ''github_token''"
| "type_name slack_token = ''slack_token''"
| "type_name stripe_key = ''stripe_key''"
| "type_name openai_key = ''openai_key''"
| "type_name email = ''email''"
| "type_name phone_number = ''phone_number''"
| "type_name credit_card = ''credit_card''"
| "type_name ssn = ''ssn''"
| "type_name generic_secret = ''generic_secret''"

definition toUpperCase_char :: "char \<Rightarrow> char" where
  "toUpperCase_char c =
     (if (97::nat) \<le> of_char c \<and> of_char c \<le> (122::nat) then char_of (of_char c - (32::nat)) else c)"

definition toUpperCase :: "string \<Rightarrow> string" where
  "toUpperCase s = map toUpperCase_char s"

text \<open>\<open>s.slice(a, b)\<close> for \<open>0 \<le> a\<close> and \<open>0 \<le> b\<close>.\<close>

definition slice :: "'a list \<Rightarrow> nat \<Rightarrow> nat \<Rightarrow> 'a list" where
  "slice s a b = take (b - a) (drop a s)"

text \<open>The body of the inner loop of \<open>detectSecrets\<close> for one match of one pattern:
  a credit-card candidate that fails the Luhn check is skipped, every other match is pushed.\<close>

definition match_secret :: "secret_pattern \<Rightarrow> string \<Rightarrow> nat \<times> string \<Rightarrow> detected_secret option" where
  "match_secret pattern content m =
     (case m of (index, m0) \<Rightarrow>
        if ptype pattern = credit_card \<and> \<not> luhnCheck m0 then None
        else
          let start = index - SECRET_CONTEXT_CHARS;
              stop = min (length content) (index + length m0 + SECRET_CONTEXT_CHARS);
              contextBefore = slice content start index;
              contextAfter = slice content (index + length m0) stop
          in Some \<lparr> stype = ptype pattern,
                    spattern = pdescription pattern,
                    slocation = \<lparr>loc_start = index, loc_end = index + length m0\<rparr>,
                    scontext = ''...'' @ contextBefore @ ''[REDACTED]'' @ contextAfter @ ''...'',
                    sconfidence = pconfidence pattern \<rparr>)"

definition collect_secrets :: "regex_engine \<Rightarrow> string \<Rightarrow> detected_secret list" where
  "collect_secrets matchAll content =
     concat (map (\<lambda>(i, pattern). List.map_filter (match_secret pattern content) (matchAll i content))
                 (enumerate 0 SECRET_PATTERNS))"

text \<open>\<open>secrets.sort((a, b) => a.location.start - b.location.start)\<close>: the sort of an
  array is stable.\<close>

definition sort_by_location :: "detected_secret list \<Rightarrow> detected_secret list" where
  "sort_by_location ss = sort_key (\<lambda>s. loc_start (slocation s)) ss"

text \<open>The predicate handed to \<open>deduplicated.find\<close>.\<close>

definition overlaps_existing :: "detected_secret \<Rightarrow> detected_secret \<Rightarrow> bool" where
  "overlaps_existing secret existing =
     ((loc_start (slocation secret) \<ge> loc_start (slocation existing) \<and>
       loc_start (slocation secret) \<le> loc_end (slocation existing)) \<or>
      (loc_end (slocation secret) \<ge> loc_start (slocation existing) \<and>
       loc_end (slocation secret) \<le> loc_end (slocation existing)))"

text \<open>\<open>find\<close> gives the first element that satisfies the predicate and \<open>indexOf\<close> the
  position of that object, which is the position \<open>find\<close> stopped at.\<close>

fun find_index :: "('a \<Rightarrow> bool) \<Rightarrow> 'a list \<Rightarrow> nat option" where
  "find_index P [] = None"
| "find_index P (x # xs) =
     (if P x then Some 0 else map_option Suc (find_index P xs))"

definition dedup_step :: "detected_secret list \<Rightarrow> detected_secret \<Rightarrow> detected_secret list" where
  "dedup_step deduplicated secret =
     (case find_index (overlaps_existing secret) deduplicated of
        None \<Rightarrow> deduplicated @ [secret]
      | Some index \<Rightarrow>
          if CONFIDENCE_ORDER (sconfidence secret) > CONFIDENCE_ORDER (sconfidence (deduplicated ! index))
          then deduplicated[index := secret]
          else deduplicated)"

definition deduplicate :: "detected_secret list \<Rightarrow> detected_secret list" where
  "deduplicate ss = foldl dedup_step [] ss"

text \<open>\<open>applySanitization\<close>: the secrets are taken by descending start and each range is
  replaced by its placeholder.\<close>

definition redact_one :: "string \<Rightarrow> detected_secret \<Rightarrow> string" where
  "redact_one sanitized' secret =
     (let before = slice sanitized' 0 (loc_start (slocation secret));
          after = drop (loc_end (slocation secret)) sanitized';
          placeholder = ''[REDACTED_'' @ toUpperCase (type_name (stype secret)) @ '']''
      in before @ placeholder @ after)"

definition applySanitization :: "string \<Rightarrow> detected_secret list \<Rightarrow> string" where
  "applySanitization content ss =
     foldl redact_one content (rev (sort_key (\<lambda>s. loc_start (slocation s)) (rev ss)))"

definition detectSecrets :: "regex_engine \<Rightarrow> string \<Rightarrow> secret_detection" where
  "detectSecrets matchAll content =
     (let deduplicated = deduplicate (sort_by_location (collect_secrets matchAll content))
      in \<lparr> found = (length deduplicated > 0),
           secrets = deduplicated,
           sanitized = (if length deduplicated > 0
                        then Some (applySanitization content deduplicated) else None) \<rparr>)"

definition sanitizeContent :: "regex_engine \<Rightarrow> string \<Rightarrow> string" where
  "sanitizeContent matchAll content =
     (case sanitized (detectSecrets matchAll content) of Some s \<Rightarrow> s | None \<Rightarrow> content)"

text \<open>Template literals render a number in decimal.\<close>

fun string_of_nat :: "nat \<Rightarrow> string" where
  "string_of_nat n =
     (if n < 10 then [char_of (48 + n)]
      else string_of_nat (n div 10) @ [char_of (48 + n mod 10)])"

fun join :: "string \<Rightarrow> string list \<Rightarrow> string" where
  "join sep [] = []"
| "join sep [x] = x"
| "join sep (x # y # ys) = x @ sep @ join sep (y # ys)"

record safety_check =
  safe :: bool
  reason :: "string option"
  safe_secrets :: "detected_secret list option"

definition isSafeToStore :: "regex_engine \<Rightarrow> string \<Rightarrow> safety_check" where
  "isSafeToStore matchAll content =
     (let detection = detectSecrets matchAll content
      in if \<not> found detection then \<lparr>safe = True, reason = None, safe_secrets = None\<rparr>
         else
           let highConfidence = filter (\<lambda>s. sconfidence s = High) (secrets detection)
           in if length highConfidence > 0
              then \<lparr> safe = False,
                     reason = Some (''Found '' @ string_of_nat (length highConfidence) @
                                    '' high-confidence secret(s): '' @
                                    join '', '' (map spattern highConfidence)),
                     safe_secrets = Some highConfidence \<rparr>
              else
                let mediumConfidence = filter (\<lambda>s. sconfidence s = Medium) (secrets detection)
                in if length mediumConfidence \<ge> MEDIUM_CONFIDENCE_BLOCK_THRESHOLD
                   then \<lparr> safe = False,
                          reason = Some (''Found '' @ string_of_nat (length mediumConfidence) @
                                         '' medium-confidence secret(s): '' @
                                         join '', '' (map spattern mediumConfidence)),
                          safe_secrets = Some mediumConfidence \<rparr>
                   else \<lparr> safe = True,
                          reason = Some (''Found '' @ string_of_nat (length (secrets detection)) @
                                         '' potential secret(s) with low/medium confidence''),
                          safe_secrets = Some (secrets detection) \<rparr>)"

text \<open>\<open>getSecretsSummary\<close> counts the detections by type in a \<open>Map\<close>, whose
  entries keep the order in which the types were first seen.\<close>

fun bump_type :: "(secret_type \<times> nat) list \<Rightarrow> secret_type \<Rightarrow> (secret_type \<times> nat) list" where
  "bump_type [] t = [(t, 1)]"
| "bump_type ((t', n) # rest) t =
     (if t' = t then (t', n + 1) # rest else (t', n) # bump_type rest t)"

definition underscores_to_spaces :: "string \<Rightarrow> string" where
  "underscores_to_spaces s = map (\<lambda>c. if c = CHR ''_'' then CHR '' '' else c) s"

definition getSecretsSummary :: "secret_detection \<Rightarrow> string" where
  "getSecretsSummary detection =
     (if \<not> found detection then ''No secrets detected''
      else
        let byType = foldl bump_type [] (map stype (secrets detection));
            summary = join '', '' (map (\<lambda>(t, count). string_of_nat count @ '' '' @
                                          underscores_to_spaces (type_name t) @ ''(s)'') byType);
            highConfidence = length (filter (\<lambda>s. sconfidence s = High) (secrets detection))
        in ''Detected: '' @ summary @ '' ('' @ string_of_nat highConfidence @ '' high confidence)'')"




subsection \<open>The first pattern, \<open>/sk-[a-zA-Z0-9]{48}/g\<close>\<close>

text \<open>A global regular expression is matched from left to right; after a match the scan
  resumes at its end. \<open>openai_only_engine\<close> is the engine on contents that no other
  pattern of the table matches.\<close>

definition is_alnum :: "char \<Rightarrow> bool" where
  "is_alnum c =
     (((48::nat) \<le> of_char c \<and> of_char c \<le> (57::nat)) \<or>
      ((65::nat) \<le> of_char c \<and> of_char c \<le> (90::nat)) \<or>
      ((97::nat) \<le> of_char c \<and> of_char c \<le> (122::nat)))"

definition openai_key_at :: "string \<Rightarrow> bool" where
  "openai_key_at s =
     (take 3 s = ''sk-'' \<and> length (take 48 (drop 3 s)) = 48 \<and> list_all is_alnum (take 48 (drop 3 s)))"

function openai_key_scan :: "nat \<Rightarrow> string \<Rightarrow> (nat \<times> string) list" where
  "openai_key_scan pos s =
     (if s = [] then []
      else if openai_key_at s then (pos, take 51 s) # openai_key_scan (pos + 51) (drop 51 s)
      else openai_key_scan (pos + 1) (tl s))"
  by pat_completeness auto
termination
  by (relation "measure (\<lambda>(pos, s). length s)") auto

definition openai_key_matchAll :: "string \<Rightarrow> (nat \<times> string) list" where
  "openai_key_matchAll content = openai_key_scan 0 content"

definition openai_only_engine :: regex_engine where
  "openai_only_engine i content = (if i = 0 then openai_key_matchAll content else [])"

definition S1_content :: string where
  "S1_content = ''key=sk-'' @ replicate 48 (CHR ''a'')"


section \<open>Embedding service (services/embedding-service.ts)\<close>

text \<open>
  A JavaScript \<open>number\<close> is a finite double (a rational), an infinity or \<open>NaN\<close>. A value
  handed to \<open>validateEmbedding\<close> at run time need not be an array of numbers. An array may
  be sparse: each index below its \<open>length\<close> holds an element (\<open>Some\<close>) or is a hole (\<open>None\<close>),
  as every index of \<open>new Array(n)\<close> and the middle index of \<open>[0, , 2]\<close> are.
\<close>

datatype js_number = Finite rat | PosInfinity | NegInfinity | NaN

datatype js_value =
    JNumber js_number | JString string | JBoolean bool | JUndefined | JNullValue
  | JArray "js_value option list"

type_synonym vector = "js_number list"

datatype provider = OpenAI | LocalProvider

datatype variant = Small | Large

record embedding_config =
  cfg_provider :: provider
  cfg_apiKey :: "string option"
  cfg_localModel :: string
  cfg_smallDimensions :: nat
  cfg_largeDimensions :: nat

record cache_entry =
  ce_embedding :: vector
  ce_timestamp :: nat
  ce_hits :: nat

text \<open>The cache is a JavaScript \<open>Map\<close>: its entries are kept in insertion order, \<open>set\<close>
  on a present key replaces the value in place, \<open>set\<close> on a new key appends, \<open>delete\<close>
  removes the entry.\<close>

type_synonym cache_map = "(string \<times> cache_entry) list"

fun map_get :: "('k \<times> 'v) list \<Rightarrow> 'k \<Rightarrow> 'v option" where
  "map_get [] k = None"
| "map_get ((k', v) # m) k = (if k' = k then Some v else map_get m k)"

fun map_set :: "('k \<times> 'v) list \<Rightarrow> 'k \<Rightarrow> 'v \<Rightarrow> ('k \<times> 'v) list" where
  "map_set [] k v = [(k, v)]"
| "map_set ((k', v') # m) k v = (if k' = k then (k, v) # m else (k', v') # map_set m k v)"

fun map_delete :: "('k \<times> 'v) list \<Rightarrow> 'k \<Rightarrow> ('k \<times> 'v) list" where
  "map_delete [] k = []"
| "map_delete ((k', v) # m) k = (if k' = k then m else (k', v) # map_delete m k)"

record embedding_service =
  client :: bool
  cache :: cache_map
  maxCacheSize :: nat
  SMALL_DIMENSIONS :: nat
  LARGE_DIMENSIONS :: nat
  totalEmbeddings :: nat
  cacheHits :: nat
  cacheMisses :: nat
  totalTokens :: nat
  totalCost :: rat

record embedding_stats =
  st_totalEmbeddings :: nat
  st_cacheHits :: nat
  st_cacheMisses :: nat
  st_totalTokens :: nat
  st_totalCost :: rat
  st_cacheHitRate :: rat

text \<open>The collaborators of the service: the hash of the cache key, the remote embedding
  call (wrapped in \<open>withRetry\<close>; it gives the vector and \<open>usage.total_tokens\<close>, or throws)
  and the local model. A thrown error is \<open>Inl\<close> of its message.\<close>

record embedding_env =
  sha256_hex :: "string \<Rightarrow> string"
  embeddings_create :: "string \<Rightarrow> string \<Rightarrow> nat \<Rightarrow> string + (vector \<times> nat)"
  generateLocalEmbedding :: "string \<Rightarrow> string + vector"

definition MAX_CACHE_SIZE :: nat where "MAX_CACHE_SIZE = 10000"
definition TOKENS_PER_MILLION :: rat where "TOKENS_PER_MILLION = 1000000"
definition COST_PER_MILLION_TOKENS_SMALL :: rat where "COST_PER_MILLION_TOKENS_SMALL = 2 / 100"
definition COST_PER_MILLION_TOKENS_LARGE :: rat where "COST_PER_MILLION_TOKENS_LARGE = 13 / 100"
definition SMALL_MODEL :: string where "SMALL_MODEL = ''text-embedding-3-small''"
definition LARGE_MODEL :: string where "LARGE_MODEL = ''text-embedding-3-large''"

text \<open>The constructor throws when the remote provider is chosen and no API key is set.\<close>

definition new_EmbeddingService :: "embedding_config \<Rightarrow> string + embedding_service" where
  "new_EmbeddingService cfg =
     (let fresh = \<lparr> client = False, cache = [], maxCacheSize = MAX_CACHE_SIZE,
                     SMALL_DIMENSIONS = cfg_smallDimensions cfg,
                     LARGE_DIMENSIONS = cfg_largeDimensions cfg,
                     totalEmbeddings = 0, cacheHits = 0, cacheMisses = 0,
                     totalTokens = 0, totalCost = 0 \<rparr>
      in if cfg_provider cfg = OpenAI
         then (if cfg_apiKey cfg = None \<or> cfg_apiKey cfg = Some []
               then Inl ''OPENAI_API_KEY is required when EMBEDDING_PROVIDER=openai. Set the key or omit EMBEDDING_PROVIDER to use local embeddings.''
               else Inr (fresh\<lparr>client := True\<rparr>))
         else Inr fresh)"

definition getCacheKey :: "embedding_env \<Rightarrow> embedding_config \<Rightarrow> embedding_service \<Rightarrow> string \<Rightarrow> variant \<Rightarrow> string" where
  "getCacheKey env cfg svc text v =
     (let model = (if cfg_provider cfg = OpenAI
                   then (if v = Large then LARGE_MODEL else SMALL_MODEL)
                   else cfg_localModel cfg);
          dims = (if v = Large then LARGE_DIMENSIONS svc else SMALL_DIMENSIONS svc)
      in sha256_hex env (model @ string_of_nat dims @ text))"

definition evictLRU :: "embedding_service \<Rightarrow> embedding_service" where
  "evictLRU svc =
     (case cache svc of
        [] \<Rightarrow> svc
      | (firstKey, _) # _ \<Rightarrow> svc\<lparr>cache := map_delete (cache svc) firstKey\<rparr>)"

definition addToCache :: "string \<Rightarrow> vector \<Rightarrow> nat \<Rightarrow> embedding_service \<Rightarrow> embedding_service" where
  "addToCache key embedding now svc =
     (let svc1 = (if length (cache svc) \<ge> maxCacheSize svc then evictLRU svc else svc)
      in svc1\<lparr>cache := map_set (cache svc1) key
                                \<lparr>ce_embedding = embedding, ce_timestamp = now, ce_hits = 0\<rparr>\<rparr>)"

definition generateOpenAIEmbedding ::
  "embedding_env \<Rightarrow> string \<Rightarrow> string \<Rightarrow> nat \<Rightarrow> embedding_service \<Rightarrow> (string + vector) \<times> embedding_service" where
  "generateOpenAIEmbedding env text model dimensions svc =
     (let isLarge = (model = LARGE_MODEL)
      in if \<not> client svc then (Inl ''OpenAI client is not initialized'', svc)
         else case embeddings_create env model text dimensions of
                Inl err \<Rightarrow> (Inl err, svc)
              | Inr (embedding, tokens) \<Rightarrow>
                  let costPerM = (if isLarge then COST_PER_MILLION_TOKENS_LARGE
                                  else COST_PER_MILLION_TOKENS_SMALL)
                  in (Inr embedding,
                      svc\<lparr> totalTokens := totalTokens svc + tokens,
                           totalCost := totalCost svc + (of_nat tokens / TOKENS_PER_MILLION) * costPerM \<rparr>))"

text \<open>\<open>generateEmbedding\<close> and \<open>generateLargeEmbedding\<close> have the same body but for the
  variant of the key, the model and the dimensions; \<open>generate\<close> is that body. \<open>now\<close> is the
  reading of \<open>Date.now()\<close> during the call.\<close>

definition generate ::
  "embedding_env \<Rightarrow> embedding_config \<Rightarrow> variant \<Rightarrow> string \<Rightarrow> nat \<Rightarrow> embedding_service
     \<Rightarrow> (string + vector) \<times> embedding_service" where
  "generate env cfg v text now svc0 =
     (let svc = svc0\<lparr>totalEmbeddings := totalEmbeddings svc0 + 1\<rparr>;
          cacheKey = getCacheKey env cfg svc text v
      in case map_get (cache svc) cacheKey of
           Some cached \<Rightarrow>
             let svc1 = svc\<lparr>cacheHits := cacheHits svc + 1\<rparr>;
                 svc2 = svc1\<lparr>cache := map_delete (cache svc1) cacheKey\<rparr>;
                 cached' = cached\<lparr>ce_hits := ce_hits cached + 1, ce_timestamp := now\<rparr>;
                 svc3 = svc2\<lparr>cache := map_set (cache svc2) cacheKey cached'\<rparr>
             in (Inr (ce_embedding cached'), svc3)
         | None \<Rightarrow>
             let svc1 = svc\<lparr>cacheMisses := cacheMisses svc + 1\<rparr>;
                 (res, svc2) =
                   (if cfg_provider cfg = OpenAI
                    then generateOpenAIEmbedding env text
                           (if v = Large then LARGE_MODEL else SMALL_MODEL)
                           (if v = Large then LARGE_DIMENSIONS svc1 else SMALL_DIMENSIONS svc1) svc1
                    else (generateLocalEmbedding env text, svc1))
             in case res of
                  Inl err \<Rightarrow> (Inl err, svc2)
                | Inr embedding \<Rightarrow> (Inr embedding, addToCache cacheKey embedding now svc2))"

definition generateEmbedding ::
  "embedding_env \<Rightarrow> embedding_config \<Rightarrow> string \<Rightarrow> nat \<Rightarrow> embedding_service
     \<Rightarrow> (string + vector) \<times> embedding_service" where
  "generateEmbedding env cfg text now svc = generate env cfg Small text now svc"

definition generateLargeEmbedding ::
  "embedding_env \<Rightarrow> embedding_config \<Rightarrow> string \<Rightarrow> nat \<Rightarrow> embedding_service
     \<Rightarrow> (string + vector) \<times> embedding_service" where
  "generateLargeEmbedding env cfg text now svc = generate env cfg Large text now svc"

definition getStats :: "embedding_service \<Rightarrow> embedding_stats" where
  "getStats svc =
     (let cacheHitRate = (if totalEmbeddings svc > 0
                          then of_nat (cacheHits svc) / of_nat (totalEmbeddings svc) else 0)
      in \<lparr> st_totalEmbeddings = totalEmbeddings svc,
           st_cacheHits = cacheHits svc,
           st_cacheMisses = cacheMisses svc,
           st_totalTokens = totalTokens svc,
           st_totalCost = totalCost svc,
           st_cacheHitRate = cacheHitRate \<rparr>)"

definition isNaN :: "js_number \<Rightarrow> bool" where
  "isNaN n = (n = NaN)"

text \<open>\<open>typeof n === 'number' && !isNaN(n)\<close>\<close>

fun numeric_not_NaN :: "js_value \<Rightarrow> bool" where
  "numeric_not_NaN (JNumber n) = (\<not> isNaN n)"
| "numeric_not_NaN _ = False"

text \<open>\<open>Array.prototype.every\<close> calls the predicate on the elements of the array in order
  and skips the holes.\<close>

definition every :: "js_value option list \<Rightarrow> (js_value \<Rightarrow> bool) \<Rightarrow> bool" where
  "every xs callback = list_all (\<lambda>x. case x of None \<Rightarrow> True | Some n \<Rightarrow> callback n) xs"

definition validateEmbedding :: "embedding_service \<Rightarrow> js_value \<Rightarrow> bool" where
  "validateEmbedding svc embedding =
     (case embedding of
        JArray xs \<Rightarrow>
          if length xs \<noteq> SMALL_DIMENSIONS svc then False
          else if \<not> every xs numeric_not_NaN then False
          else True
      | _ \<Rightarrow> False)"

text \<open>A call of the service, with the clock reading during the call, and a run of calls one
  after the other.\<close>

datatype embedding_call = GenerateEmbedding string nat | GenerateLargeEmbedding string nat

fun perform :: "embedding_env \<Rightarrow> embedding_config \<Rightarrow> embedding_call \<Rightarrow> embedding_service
     \<Rightarrow> (string + vector) \<times> embedding_service" where
  "perform env cfg (GenerateEmbedding text now) svc = generateEmbedding env cfg text now svc"
| "perform env cfg (GenerateLargeEmbedding text now) svc = generateLargeEmbedding env cfg text now svc"

fun run_calls :: "embedding_env \<Rightarrow> embedding_config \<Rightarrow> embedding_call list \<Rightarrow> embedding_service
     \<Rightarrow> embedding_service" where
  "run_calls env cfg [] svc = svc"
| "run_calls env cfg (c # cs) svc = run_calls env cfg cs (snd (perform env cfg c svc))"

text \<open>The cache key of a call, and whether the embedding backend answers it with a vector
  (on a miss the entry is inserted only then).\<close>

fun call_key :: "embedding_env \<Rightarrow> embedding_config \<Rightarrow> embedding_service \<Rightarrow> embedding_call \<Rightarrow> string" where
  "call_key env cfg svc (GenerateEmbedding text now) = getCacheKey env cfg svc text Small"
| "call_key env cfg svc (GenerateLargeEmbedding text now) = getCacheKey env cfg svc text Large"

definition is_Inr :: "'a + 'b \<Rightarrow> bool" where
  "is_Inr r = (case r of Inl _ \<Rightarrow> False | Inr _ \<Rightarrow> True)"

definition backend_answers :: "embedding_env \<Rightarrow> embedding_config \<Rightarrow> embedding_service \<Rightarrow> variant \<Rightarrow> string \<Rightarrow> bool" where
  "backend_answers env cfg svc v text =
     (if cfg_provider cfg = OpenAI
      then client svc \<and>
           is_Inr (embeddings_create env (if v = Large then LARGE_MODEL else SMALL_MODEL) text
                     (if v = Large then LARGE_DIMENSIONS svc else SMALL_DIMENSIONS svc))
      else is_Inr (generateLocalEmbedding env text))"

fun call_answered :: "embedding_env \<Rightarrow> embedding_config \<Rightarrow> embedding_service \<Rightarrow> embedding_call \<Rightarrow> bool" where
  "call_answered env cfg svc (GenerateEmbedding text now) = backend_answers env cfg svc Small text"
| "call_answered env cfg svc (GenerateLargeEmbedding text now) = backend_answers env cfg svc Large text"

text \<open>Notions used to state the properties of the service: the invariant of the counters
  and the cache size, the outcome of the backend call on a miss, and what the specification
  calls a finite real.\<close>

definition stats_inv :: "embedding_service \<Rightarrow> bool" where
  "stats_inv s = (totalEmbeddings s = cacheHits s + cacheMisses s \<and> length (cache s) \<le> maxCacheSize s)"

definition backend_result :: "embedding_env \<Rightarrow> embedding_config \<Rightarrow> variant \<Rightarrow> string \<Rightarrow> embedding_service
     \<Rightarrow> (string + vector) \<times> embedding_service" where
  "backend_result env cfg v text s =
     (if cfg_provider cfg = OpenAI
      then generateOpenAIEmbedding env text
             (if v = Large then LARGE_MODEL else SMALL_MODEL)
             (if v = Large then LARGE_DIMENSIONS s else SMALL_DIMENSIONS s) s
      else (generateLocalEmbedding env text, s))"

fun is_finite_number :: "js_value \<Rightarrow> bool" where
  "is_finite_number (JNumber (Finite q)) = True"
| "is_finite_number _ = False"

text \<open>A configuration, collaborators and services for concrete runs: the local provider
  with a model that gives a fixed vector, and the identity standing for the hash. The
  capacity of the cache is the constant \<open>MAX_CACHE_SIZE\<close>; as the test of the eviction does,
  a service with a small capacity is made by overriding the field.\<close>

definition example_config :: embedding_config where
  "example_config = \<lparr> cfg_provider = LocalProvider, cfg_apiKey = None,
                       cfg_localModel = ''test-model'',
                       cfg_smallDimensions = 3, cfg_largeDimensions = 3 \<rparr>"

definition example_env :: embedding_env where
  "example_env = \<lparr> sha256_hex = (\<lambda>s. s),
                    embeddings_create = (\<lambda>model input dimensions. Inl ''no remote provider''),
                    generateLocalEmbedding = (\<lambda>text. Inr (replicate 3 (Finite (1 / 10)))) \<rparr>"

definition example_service :: embedding_service where
  "example_service = \<lparr> client = False, cache = [], maxCacheSize = MAX_CACHE_SIZE,
                        SMALL_DIMENSIONS = 3, LARGE_DIMENSIONS = 3,
                        totalEmbeddings = 0, cacheHits = 0, cacheMisses = 0,
                        totalTokens = 0, totalCost = 0 \<rparr>"

definition service_of_capacity :: "nat \<Rightarrow> embedding_service" where
  "service_of_capacity M = example_service\<lparr>maxCacheSize := M\<rparr>"

definition three_calls :: "embedding_call list" where
  "three_calls = [GenerateEmbedding ''text-1'' 1, GenerateEmbedding ''text-2'' 2, GenerateEmbedding ''text-3'' 3]"

definition stats_calls :: "embedding_call list" where
  "stats_calls = [GenerateEmbedding ''text a'' 1, GenerateEmbedding ''text b'' 2,
                  GenerateEmbedding ''text a'' 3, GenerateLargeEmbedding ''text b'' 4]"

text \<open>A run in which the local model fails on one text: the calls \<open>k\<^sub>1 .. k\<^sub>M\<close> are answered
  and the call \<open>k\<^sub>M\<^sub>+\<^sub>1\<close> throws. \<open>key_prefix\<close> is what the cache key of a text begins with under
  the example configuration.\<close>

definition failing_text :: string where
  "failing_text = ''x''"

definition flaky_env :: embedding_env where
  "flaky_env = example_env\<lparr>generateLocalEmbedding :=
     (\<lambda>text. if text = failing_text then Inl ''local embedding failed''
             else Inr (replicate 3 (Finite (1 / 10))))\<rparr>"

definition text_of :: "nat \<Rightarrow> string" where
  "text_of i = replicate (Suc i) (CHR ''a'')"

definition filling_calls :: "nat \<Rightarrow> embedding_call list" where
  "filling_calls M = map (\<lambda>i. GenerateEmbedding (text_of i) i) [0..<M]"

definition last_unanswered_calls :: "nat \<Rightarrow> embedding_call list" where
  "last_unanswered_calls M = filling_calls M @ [GenerateEmbedding failing_text M]"

definition key_prefix :: string where
  "key_prefix = ''test-model'' @ string_of_nat 3"

definition infinite_vector :: js_value where
  "infinite_vector = JArray [Some (JNumber (Finite 0)), Some (JNumber PosInfinity), Some (JNumber NegInfinity)]"

text \<open>\<open>new Array(3)\<close> and \<open>[0, , 2]\<close>.\<close>

definition empty_slots :: js_value where
  "empty_slots = JArray [None, None, None]"

definition sparse_vector :: js_value where
  "sparse_vector = JArray [Some (JNumber (Finite 0)), None, Some (JNumber (Finite 2))]"

text \<open>The fields of the service that no call changes.\<close>

definition same_setup :: "embedding_service \<Rightarrow> embedding_service \<Rightarrow> bool" where
  "same_setup s s' = (maxCacheSize s' = maxCacheSize s \<and> client s' = client s \<and>
     SMALL_DIMENSIONS s' = SMALL_DIMENSIONS s \<and> LARGE_DIMENSIONS s' = LARGE_DIMENSIONS s)"

section \<open>JSON values and the vector index\<close>

text \<open>
  A payload, a metadata object and a response body are JSON objects: lists of properties in
  insertion order, read with \<open>map_get\<close> and written with \<open>map_set\<close>. An ISO-8601 string made
  by \<open>toISOString\<close> is modelled by the instant it denotes (\<open>JTime\<close>, in milliseconds); any
  other string is a \<open>JStr\<close>.
\<close>

datatype json =
    JNull | JBool bool | JNum rat | JStr string | JTime nat
  | JList "json list" | JObj "(string \<times> json) list"

type_synonym obj = "(string \<times> json) list"

text \<open>The object spread \<open>{...a, ...b}\<close>: the properties of \<open>b\<close> are written over \<open>a\<close>.\<close>

definition spread :: "obj \<Rightarrow> obj \<Rightarrow> obj" where
  "spread a b = foldl (\<lambda>acc (k, v). map_set acc k v) a b"

text \<open>\<open>x ?? d\<close> for a property \<open>x\<close> of a JSON object: absent and \<open>null\<close> give \<open>d\<close>.\<close>

fun nullish_or :: "json option \<Rightarrow> json \<Rightarrow> json" where
  "nullish_or None d = d"
| "nullish_or (Some JNull) d = d"
| "nullish_or (Some v) d = v"

text \<open>
  The vector index is an external collaborator. Its state is the collection (absent
  until created), the points, whether it can be reached, and the log of the requests it
  received. A request to an index that cannot be reached throws, after the retries of
  \<open>withRetry\<close>; a thrown error is \<open>Inl\<close> of its message.
\<close>

record vector_params =
  vp_size :: nat
  vp_distance :: string

datatype vectors_config = SingleVector vector_params | NamedVectors "(string \<times> vector_params) list"

record qdrant_point =
  point_id :: string
  vec_dense :: vector
  vec_dense_large :: "vector option"
  point_payload :: obj

record scored_point =
  sp_id :: string
  sp_score :: rat
  sp_payload :: obj

text \<open>The conditions \<open>buildFilter\<close> and the hybrid search put under \<open>must\<close>.\<close>

datatype condition =
    MatchValue string json
  | RangeGte string rat
  | RangeGt string nat
  | MatchAny string "string list"
  | MatchText string string
  | Should "condition list"

datatype rpc =
    GetCollections | GetCollection | CreateCollection | CreatePayloadIndex string
  | UpsertPoints "string list" | SearchPoints "condition list option"
  | ScrollPoints "condition list option" | CountPoints "condition list option"
  | RetrievePoints "string list" | DeletePoints "string list" | SetPayload "string list"

record index_state =
  collection :: "vectors_config option"
  points :: "qdrant_point list"
  online :: bool
  rpc_log :: "rpc list"

text \<open>What the index computes by itself: the similarity of a query vector to a point in
  a named vector space, and whether a text matches a query in the full-text index.\<close>

record index_env =
  similarity :: "string \<Rightarrow> vector \<Rightarrow> qdrant_point \<Rightarrow> rat"
  text_match :: "string \<Rightarrow> string \<Rightarrow> bool"

text \<open>The index's reading of a condition on a payload, as the specification gives it: a
  match on \<open>null\<close> holds for a field that is absent or \<open>null\<close>, a range on a field that is
  absent or of another type does not hold.\<close>

fun cond_holds :: "index_env \<Rightarrow> obj \<Rightarrow> condition \<Rightarrow> bool" where
  "cond_holds ienv p (MatchValue k v) =
     (case map_get p k of None \<Rightarrow> v = JNull | Some x \<Rightarrow> x = v)"
| "cond_holds ienv p (RangeGte k r) =
     (case map_get p k of Some (JNum x) \<Rightarrow> r \<le> x | _ \<Rightarrow> False)"
| "cond_holds ienv p (RangeGt k t) =
     (case map_get p k of Some (JTime x) \<Rightarrow> t < x | _ \<Rightarrow> False)"
| "cond_holds ienv p (MatchAny k vs) =
     (case map_get p k of
        Some (JList xs) \<Rightarrow> list_ex (\<lambda>x. list_ex (\<lambda>v. x = JStr v) vs) xs
      | Some (JStr s) \<Rightarrow> list_ex (\<lambda>v. s = v) vs
      | _ \<Rightarrow> False)"
| "cond_holds ienv p (MatchText k q) =
     (case map_get p k of Some (JStr s) \<Rightarrow> text_match ienv q s | _ \<Rightarrow> False)"
| "cond_holds ienv p (Should cs) = list_ex (cond_holds ienv p) cs"

text \<open>No filter selects every point; a filter selects the points on which all its
  conditions hold.\<close>

definition filter_holds :: "index_env \<Rightarrow> condition list option \<Rightarrow> qdrant_point \<Rightarrow> bool" where
  "filter_holds ienv f p =
     (case f of None \<Rightarrow> True | Some must \<Rightarrow> list_all (cond_holds ienv (point_payload p)) must)"

definition rpc_begin :: "rpc \<Rightarrow> index_state \<Rightarrow> index_state" where
  "rpc_begin r st = st\<lparr>rpc_log := rpc_log st @ [r]\<rparr>"

definition UNREACHABLE :: string where
  "UNREACHABLE = ''connect ECONNREFUSED''"

definition client_getCollections :: "index_state \<Rightarrow> (string + bool) \<times> index_state" where
  "client_getCollections st =
     (let st1 = rpc_begin GetCollections st
      in if \<not> online st then (Inl UNREACHABLE, st1) else (Inr (collection st \<noteq> None), st1))"

definition client_getCollection :: "index_state \<Rightarrow> (string + vectors_config option) \<times> index_state" where
  "client_getCollection st =
     (let st1 = rpc_begin GetCollection st
      in if \<not> online st then (Inl UNREACHABLE, st1) else (Inr (collection st), st1))"

definition client_createCollection :: "vectors_config \<Rightarrow> index_state \<Rightarrow> (string + unit) \<times> index_state" where
  "client_createCollection vc st =
     (let st1 = rpc_begin CreateCollection st
      in if \<not> online st then (Inl UNREACHABLE, st1) else (Inr (), st1\<lparr>collection := Some vc\<rparr>))"

definition client_createPayloadIndex :: "string \<Rightarrow> index_state \<Rightarrow> (string + unit) \<times> index_state" where
  "client_createPayloadIndex field st =
     (let st1 = rpc_begin (CreatePayloadIndex field) st
      in if \<not> online st then (Inl UNREACHABLE, st1) else (Inr (), st1))"

fun put_point :: "qdrant_point list \<Rightarrow> qdrant_point \<Rightarrow> qdrant_point list" where
  "put_point [] p = [p]"
| "put_point (q # qs) p = (if point_id q = point_id p then p # qs else q # put_point qs p)"

definition client_upsert :: "qdrant_point list \<Rightarrow> index_state \<Rightarrow> (string + unit) \<times> index_state" where
  "client_upsert ps st =
     (let st1 = rpc_begin (UpsertPoints (map point_id ps)) st
      in if \<not> online st then (Inl UNREACHABLE, st1)
         else (Inr (), st1\<lparr>points := foldl put_point (points st1) ps\<rparr>))"

definition client_retrieve :: "string list \<Rightarrow> index_state \<Rightarrow> (string + qdrant_point list) \<times> index_state" where
  "client_retrieve ids st =
     (let st1 = rpc_begin (RetrievePoints ids) st
      in if \<not> online st then (Inl UNREACHABLE, st1)
         else (Inr (filter (\<lambda>p. point_id p \<in> set ids) (points st1)), st1))"

definition client_delete :: "string list \<Rightarrow> index_state \<Rightarrow> (string + unit) \<times> index_state" where
  "client_delete ids st =
     (let st1 = rpc_begin (DeletePoints ids) st
      in if \<not> online st then (Inl UNREACHABLE, st1)
         else (Inr (), st1\<lparr>points := filter (\<lambda>p. point_id p \<notin> set ids) (points st1)\<rparr>))"

definition client_setPayload :: "string list \<Rightarrow> obj \<Rightarrow> index_state \<Rightarrow> (string + unit) \<times> index_state" where
  "client_setPayload ids payload st =
     (let st1 = rpc_begin (SetPayload ids) st
      in if \<not> online st then (Inl UNREACHABLE, st1)
         else (Inr (), st1\<lparr>points :=
                 map (\<lambda>p. if point_id p \<in> set ids
                           then p\<lparr>point_payload := spread (point_payload p) payload\<rparr> else p)
                     (points st1)\<rparr>))"

definition client_scroll ::
  "index_env \<Rightarrow> condition list option \<Rightarrow> nat \<Rightarrow> nat \<Rightarrow> index_state
     \<Rightarrow> (string + qdrant_point list) \<times> index_state" where
  "client_scroll ienv f limit offset st =
     (let st1 = rpc_begin (ScrollPoints f) st
      in if \<not> online st then (Inl UNREACHABLE, st1)
         else (Inr (take limit (drop offset (filter (filter_holds ienv f) (points st1)))), st1))"

definition client_count ::
  "index_env \<Rightarrow> condition list option \<Rightarrow> index_state \<Rightarrow> (string + nat) \<times> index_state" where
  "client_count ienv f st =
     (let st1 = rpc_begin (CountPoints f) st
      in if \<not> online st then (Inl UNREACHABLE, st1)
         else (Inr (length (filter (filter_holds ienv f) (points st1))), st1))"

definition score_point :: "index_env \<Rightarrow> string \<Rightarrow> vector \<Rightarrow> qdrant_point \<Rightarrow> scored_point" where
  "score_point ienv name v p =
     \<lparr>sp_id = point_id p, sp_score = similarity ienv name v p, sp_payload = point_payload p\<rparr>"

definition client_search ::
  "index_env \<Rightarrow> string \<Rightarrow> vector \<Rightarrow> condition list option \<Rightarrow> nat \<Rightarrow> nat \<Rightarrow> rat option
     \<Rightarrow> index_state \<Rightarrow> (string + scored_point list) \<times> index_state" where
  "client_search ienv name v f limit offset score_threshold st =
     (let st1 = rpc_begin (SearchPoints f) st
      in if \<not> online st then (Inl UNREACHABLE, st1)
         else
           let candidates = map (score_point ienv name v) (filter (filter_holds ienv f) (points st1));
               above = (case score_threshold of
                          None \<Rightarrow> candidates
                        | Some t \<Rightarrow> filter (\<lambda>sp. t \<le> sp_score sp) candidates);
               ranked = sort_key (\<lambda>sp. - sp_score sp) above
           in (Inr (take limit (drop offset ranked)), st1))"

section \<open>Vector index controller (services/qdrant-client.ts)\<close>

definition DEFAULT_CONFIDENCE :: rat where "DEFAULT_CONFIDENCE = 7 / 10"
definition DEFAULT_SEARCH_LIMIT :: nat where "DEFAULT_SEARCH_LIMIT = 10"
definition RRF_K :: nat where "RRF_K = 60"
definition RRF_FETCH_MULTIPLIER :: nat where "RRF_FETCH_MULTIPLIER = 3"
definition DEFAULT_LIST_LIMIT :: nat where "DEFAULT_LIST_LIMIT = 100"
definition ACCESS_TRACKING_WARNING_INTERVAL_MS :: nat where "ACCESS_TRACKING_WARNING_INTERVAL_MS = 10000"

record qdrant_config =
  collectionName :: string
  smallDimensions :: nat
  largeDimensions :: nat

record qdrant_state =
  initialized :: bool
  accessTrackingFailureCount :: nat
  lastTrackingWarningTime :: nat
  idx :: index_state

type_synonym 'a qdrant_op = "qdrant_state \<Rightarrow> (string + 'a) \<times> qdrant_state"

text \<open>An awaited step followed by the rest of the method: a rejection ends the method with
  the error, in the state reached.\<close>

definition and_then :: "'a qdrant_op \<Rightarrow> ('a \<Rightarrow> 'b qdrant_op) \<Rightarrow> 'b qdrant_op" where
  "and_then m f s = (case m s of (Inl e, s') \<Rightarrow> (Inl e, s') | (Inr a, s') \<Rightarrow> f a s')"

definition resolve :: "'a \<Rightarrow> 'a qdrant_op" where
  "resolve a s = (Inr a, s)"

definition reject :: "string \<Rightarrow> 'a qdrant_op" where
  "reject e s = (Inl e, s)"

definition call_index :: "(index_state \<Rightarrow> (string + 'a) \<times> index_state) \<Rightarrow> 'a qdrant_op" where
  "call_index f s = (case f (idx s) of (r, i) \<Rightarrow> (r, s\<lparr>idx := i\<rparr>))"

definition expected_vectors :: "qdrant_config \<Rightarrow> vectors_config" where
  "expected_vectors cfg =
     NamedVectors [ (''dense'', \<lparr>vp_size = smallDimensions cfg, vp_distance = ''Cosine''\<rparr>),
                    (''dense_large'', \<lparr>vp_size = largeDimensions cfg, vp_distance = ''Cosine''\<rparr>) ]"

definition createCollection :: "qdrant_config \<Rightarrow> unit qdrant_op" where
  "createCollection cfg = call_index (client_createCollection (expected_vectors cfg))"

text \<open>The issues \<open>validateCollectionSchema\<close> collects for one named vector.\<close>

definition vector_issues :: "string \<Rightarrow> nat \<Rightarrow> vector_params option \<Rightarrow> string list" where
  \<open>vector_issues name expected v =
     (case v of
        None \<Rightarrow> [''missing vector "'' @ name @ ''" (expected size='' @ string_of_nat expected @
                  '', distance=Cosine)'']
      | Some vp \<Rightarrow>
          (if vp_size vp \<noteq> expected
           then [''"'' @ name @ ''" size mismatch: found '' @ string_of_nat (vp_size vp) @
                 '', expected '' @ string_of_nat expected @
                 '' - if you changed embedding provider/model, delete the collection or set QDRANT_COLLECTION to a new name'']
           else []) @
          (if vp_distance vp \<noteq> ''Cosine''
           then [''"'' @ name @ ''" distance mismatch: found '' @ vp_distance vp @ '', expected Cosine'']
           else []))\<close>

definition validateCollectionSchema :: "qdrant_config \<Rightarrow> unit qdrant_op" where
  \<open>validateCollectionSchema cfg =
     and_then (call_index client_getCollection) (\<lambda>vectors.
       let expectedSmall = smallDimensions cfg;
           expectedLarge = largeDimensions cfg;
           unnamed = ''Collection "'' @ collectionName cfg @
             ''" uses a single unnamed vector and is incompatible with the current dual-embedding configuration (dense='' @
             string_of_nat expectedSmall @ ''d, dense_large='' @ string_of_nat expectedLarge @
             ''d). Delete the collection or set QDRANT_COLLECTION to a new name and restart.''
       in case vectors of
            None \<Rightarrow> reject unnamed
          | Some (SingleVector vp) \<Rightarrow> reject unnamed
          | Some (NamedVectors namedVectors) \<Rightarrow>
              if map_get namedVectors ''size'' \<noteq> None then reject unnamed
              else
                let issues = vector_issues ''dense'' expectedSmall (map_get namedVectors ''dense'') @
                             vector_issues ''dense_large'' expectedLarge (map_get namedVectors ''dense_large'')
                in if length issues > 0
                   then reject (''Collection "'' @ collectionName cfg @
                          ''" is incompatible with the current embedding configuration:'' @ [CHR 0x0A] @
                          join [CHR 0x0A] (map (\<lambda>i. ''  - '' @ i) issues) @ [CHR 0x0A] @
                          ''Delete the collection or set QDRANT_COLLECTION to a new name and restart.'')
                   else resolve ())\<close>

definition payload_index_fields :: "string list" where
  "payload_index_fields =
     [''workspace'', ''memory_type'', ''confidence'', ''created_at'', ''updated_at'',
      ''access_count'', ''last_accessed_at'', ''tags'', ''content'']"

text \<open>A failure to create a payload index is logged and the loop goes on.\<close>

definition createPayloadIndexes :: "unit qdrant_op" where
  "createPayloadIndexes s =
     (Inr (), foldl (\<lambda>s' field. snd (call_index (client_createPayloadIndex field) s')) s payload_index_fields)"

definition initialize :: "qdrant_config \<Rightarrow> unit qdrant_op" where
  "initialize cfg s =
     (if initialized s then (Inr (), s)
      else and_then (call_index client_getCollections) (\<lambda>exists.
             and_then (if \<not> exists then createCollection cfg else validateCollectionSchema cfg) (\<lambda>_.
               and_then createPayloadIndexes (\<lambda>_ s'. (Inr (), s'\<lparr>initialized := True\<rparr>)))) s)"

definition ensureInitialized :: "qdrant_config \<Rightarrow> unit qdrant_op" where
  "ensureInitialized cfg s = (if \<not> initialized s then initialize cfg s else (Inr (), s))"

text \<open>
  \<open>upsert\<close>. \<open>metadata\<close> is a \<open>Partial<QdrantPayload>\<close>: its \<open>id\<close>, when present and not
  \<open>null\<close>, is a string. \<open>uuid\<close> is what \<open>uuidv4()\<close> returns when it is called and \<open>now\<close> the
  instant of \<open>new Date()\<close>; the parameter \<open>pid\<close> of the methods is the source's \<open>id\<close>. The object literal lists the defaults first and spreads
  \<open>metadata\<close> over them last.
\<close>

definition upsert_id :: "obj \<Rightarrow> string \<Rightarrow> string" where
  "upsert_id metadata uuid =
     (case map_get metadata ''id'' of Some (JStr s) \<Rightarrow> s | _ \<Rightarrow> uuid)"

definition upsert_payload :: "string \<Rightarrow> obj \<Rightarrow> nat \<Rightarrow> obj" where
  "upsert_payload content metadata now =
     spread
       [ (''content'', JStr content),
         (''workspace'', nullish_or (map_get metadata ''workspace'') JNull),
         (''memory_type'', nullish_or (map_get metadata ''memory_type'') (JStr ''long-term'')),
         (''confidence'', nullish_or (map_get metadata ''confidence'') (JNum DEFAULT_CONFIDENCE)),
         (''tags'', nullish_or (map_get metadata ''tags'') (JList [])),
         (''created_at'', nullish_or (map_get metadata ''created_at'') (JTime now)),
         (''updated_at'', JTime now),
         (''access_count'', nullish_or (map_get metadata ''access_count'') (JNum 0)),
         (''last_accessed_at'', nullish_or (map_get metadata ''last_accessed_at'') JNull) ]
       metadata"

definition upsert ::
  "qdrant_config \<Rightarrow> string \<Rightarrow> vector \<Rightarrow> obj \<Rightarrow> vector option \<Rightarrow> string \<Rightarrow> nat \<Rightarrow> string qdrant_op" where
  "upsert cfg content v metadata vectorLarge uuid now =
     and_then (ensureInitialized cfg) (\<lambda>_.
       let pid = upsert_id metadata uuid;
           payload = upsert_payload content metadata now;
           point = \<lparr> point_id = pid, vec_dense = v, vec_dense_large = vectorLarge,
                     point_payload = payload \<rparr>
       in and_then (call_index (client_upsert [point])) (\<lambda>_. resolve pid))"

text \<open>\<open>updatePayload\<close> writes \<open>updated_at\<close> after the spread of the caller's fields.\<close>

definition updatePayload :: "qdrant_config \<Rightarrow> string \<Rightarrow> obj \<Rightarrow> nat \<Rightarrow> unit qdrant_op" where
  "updatePayload cfg pid payload now =
     and_then (ensureInitialized cfg) (\<lambda>_.
       call_index (client_setPayload [pid] (spread payload [(''updated_at'', JTime now)])))"

record search_result =
  sr_id :: string
  sr_path :: string
  sr_content :: string
  sr_score :: rat
  sr_metadata :: obj

text \<open>\<open>(payload?.path as string) || ''\<close>, for a payload whose field is a string when present.\<close>

definition string_field :: "obj \<Rightarrow> string \<Rightarrow> string" where
  "string_field payload k = (case map_get payload k of Some (JStr s) \<Rightarrow> s | _ \<Rightarrow> [])"

definition to_result :: "string \<Rightarrow> rat \<Rightarrow> obj \<Rightarrow> search_result" where
  "to_result pid score payload =
     \<lparr> sr_id = pid, sr_path = string_field payload ''path'',
       sr_content = string_field payload ''content'', sr_score = score, sr_metadata = payload \<rparr>"

text \<open>\<open>updateAccessTracking\<close>: read the points, then set the incremented count on each;
  the first request that fails rejects the whole update.\<close>

definition current_count :: "obj \<Rightarrow> rat" where
  "current_count payload = (case map_get payload ''access_count'' of Some (JNum n) \<Rightarrow> n | _ \<Rightarrow> 0)"

fun track_points :: "qdrant_point list \<Rightarrow> nat \<Rightarrow> unit qdrant_op" where
  "track_points [] now = resolve ()"
| "track_points (p # ps) now =
     and_then (call_index (client_setPayload [point_id p]
                 [ (''access_count'', JNum (current_count (point_payload p) + 1)),
                   (''last_accessed_at'', JTime now) ]))
       (\<lambda>_. track_points ps now)"

definition updateAccessTracking :: "string list \<Rightarrow> nat \<Rightarrow> unit qdrant_op" where
  "updateAccessTracking ids now =
     and_then (call_index (client_retrieve ids)) (\<lambda>ps. track_points ps now)"

text \<open>The update is started and not awaited. The model runs it at once, where it is
  started; its failure is caught: after a search it is counted and the warning is
  rate-limited, after a \<open>get\<close> it is only logged.\<close>

definition track_after_search :: "string list \<Rightarrow> nat \<Rightarrow> qdrant_state \<Rightarrow> qdrant_state" where
  "track_after_search resultIds now s =
     (if length resultIds > 0
      then (case updateAccessTracking resultIds now s of
              (Inr _, s') \<Rightarrow> s'
            | (Inl err, s') \<Rightarrow>
                let s'' = s'\<lparr>accessTrackingFailureCount := accessTrackingFailureCount s' + 1\<rparr>
                in if now - lastTrackingWarningTime s'' \<ge> ACCESS_TRACKING_WARNING_INTERVAL_MS
                   then s''\<lparr>lastTrackingWarningTime := now\<rparr> else s'')
      else s)"

definition get :: "qdrant_config \<Rightarrow> string \<Rightarrow> nat \<Rightarrow> search_result option qdrant_op" where
  "get cfg pid now =
     and_then (ensureInitialized cfg) (\<lambda>_.
       and_then (call_index (client_retrieve [pid])) (\<lambda>result s.
         case result of
           [] \<Rightarrow> (Inr None, s)
         | point # _ \<Rightarrow>
             (Inr (Some (to_result (point_id point) 1 (point_payload point))),
              snd (updateAccessTracking [pid] now s))))"

definition delete :: "qdrant_config \<Rightarrow> string \<Rightarrow> unit qdrant_op" where
  "delete cfg pid =
     and_then (ensureInitialized cfg) (\<lambda>_. call_index (client_delete [pid]))"

definition batchDelete :: "qdrant_config \<Rightarrow> string list \<Rightarrow> unit qdrant_op" where
  "batchDelete cfg ids =
     and_then (ensureInitialized cfg) (\<lambda>_. call_index (client_delete ids))"

text \<open>
  \<open>SearchFilters\<close>. \<open>workspace\<close> may be absent, \<open>null\<close> (\<open>Some None\<close>) or a string; the other
  fields are absent or present.
\<close>

record search_filters =
  f_workspace :: "string option option"
  f_memory_type :: "string option"
  f_minConfidence :: "rat option"
  f_tags :: "string list option"
  f_metadata :: "obj option"

definition expiry_exclusion :: "nat \<Rightarrow> condition" where
  "expiry_exclusion now =
     Should [MatchValue ''expires_at'' JNull, RangeGt ''expires_at'' now]"

definition buildFilter :: "nat \<Rightarrow> search_filters option \<Rightarrow> condition list option" where
  "buildFilter now filter_arg =
     (case filter_arg of
        None \<Rightarrow> None
      | Some f \<Rightarrow>
          let conditions =
                (case f_workspace f of
                   None \<Rightarrow> []
                 | Some w \<Rightarrow> [MatchValue ''workspace'' (case w of None \<Rightarrow> JNull | Some s \<Rightarrow> JStr s)]) @
                (case f_memory_type f of
                   None \<Rightarrow> []
                 | Some t \<Rightarrow> (if t \<noteq> [] then [MatchValue ''memory_type'' (JStr t)] else [])) @
                (case f_minConfidence f of
                   None \<Rightarrow> []
                 | Some c \<Rightarrow> [RangeGte ''confidence'' c]) @
                [expiry_exclusion now] @
                (case f_tags f of
                   None \<Rightarrow> []
                 | Some tags \<Rightarrow> (if length tags > 0 then [MatchAny ''tags'' tags] else [])) @
                (case f_metadata f of
                   None \<Rightarrow> []
                 | Some m \<Rightarrow> map (\<lambda>(key, v). MatchValue key v) m)
          in if length conditions > 0 then Some conditions else None)"

definition list_points ::
  "qdrant_config \<Rightarrow> index_env \<Rightarrow> search_filters option \<Rightarrow> nat \<Rightarrow> nat \<Rightarrow> nat
     \<Rightarrow> search_result list qdrant_op" where
  "list_points cfg ienv filter_arg limit offset now =
     and_then (ensureInitialized cfg) (\<lambda>_.
       let qdrantFilter = buildFilter now filter_arg
       in and_then (call_index (client_scroll ienv qdrantFilter limit offset)) (\<lambda>results.
            resolve (map (\<lambda>p. to_result (point_id p) 1 (point_payload p)) results)))"

definition count :: "qdrant_config \<Rightarrow> index_env \<Rightarrow> search_filters option \<Rightarrow> nat \<Rightarrow> nat qdrant_op" where
  "count cfg ienv filter_arg now =
     and_then (ensureInitialized cfg) (\<lambda>_.
       let qdrantFilter = buildFilter now filter_arg
       in call_index (client_count ienv qdrantFilter))"

record search_params =
  p_vector :: vector
  p_vectorLarge :: "vector option"
  p_filter :: "search_filters option"
  p_limit :: "nat option"
  p_offset :: "nat option"
  p_scoreThreshold :: "rat option"
  p_withPayload :: "bool option"
  p_query :: "string option"
  p_useHybridSearch :: "bool option"

definition vector_name :: "search_params \<Rightarrow> string" where
  "vector_name params = (if p_vectorLarge params \<noteq> None then ''dense_large'' else ''dense'')"

definition query_vector :: "search_params \<Rightarrow> vector" where
  "query_vector params = (case p_vectorLarge params of Some v \<Rightarrow> v | None \<Rightarrow> p_vector params)"

text \<open>
  The scores of the fusion are JavaScript numbers, that is IEEE 754 doubles; a finite double
  is modelled by the rational it denotes. An arithmetic operation gives the exact result
  rounded to the nearest double, a tie going to the even significand. A double has a
  significand of 53 bits; its exponent is at least \<open>-1022\<close>, below which the doubles keep the
  spacing \<open>2\<^sup>-\<^sup>1\<^sup>0\<^sup>7\<^sup>4\<close>. \<open>floor_log2 x\<close> is the exponent \<open>e\<close> with \<open>2\<^sup>e \<le> x < 2\<^sup>e\<^sup>+\<^sup>1\<close> of a positive \<open>x\<close>.
  \<open>double_round\<close> is the rounding of a result of magnitude below \<open>2\<^sup>1\<^sup>0\<^sup>2\<^sup>4\<close>, from where a
  double is \<open>Infinity\<close>: a score is at most the number of the results fetched. The divisor
  of \<open>js_div\<close> is not 0: it is \<open>k + rank\<close>, an integer from 61, and an index of an array is
  below \<open>2\<^sup>3\<^sup>2\<close>, so the divisor is itself a double.
\<close>

definition round_half_even :: "rat \<Rightarrow> int" where
  "round_half_even t =
     (let f = \<lfloor>t\<rfloor>; r = t - of_int f
      in if r < 1 / 2 then f else if 1 / 2 < r then f + 1 else if even f then f else f + 1)"

definition floor_log2 :: "rat \<Rightarrow> int" where
  "floor_log2 x =
     (let (p, q) = quotient_of x; e = bitlen p - bitlen q
      in if 2 powi e \<le> x then e else e - 1)"

definition double_round :: "rat \<Rightarrow> rat" where
  "double_round x =
     (if x = 0 then 0
      else let e = max (floor_log2 \<bar>x\<bar>) (- 1022); q = 2 powi (e - 52)
           in of_int (round_half_even (x / q)) * q)"

definition js_add :: "rat \<Rightarrow> rat \<Rightarrow> rat" where
  "js_add a b = double_round (a + b)"

definition js_sub :: "rat \<Rightarrow> rat \<Rightarrow> rat" where
  "js_sub a b = double_round (a - b)"

definition js_div :: "rat \<Rightarrow> rat \<Rightarrow> rat" where
  "js_div a b = double_round (a / b)"

text \<open>
  The fusion of \<open>hybridSearchWithRRF\<close>. \<open>rrfScores\<close> and \<open>pointsById\<close> are \<open>Map\<close>s; a rank is
  the position in its list, counted from 1. \<open>rrf_term rank\<close> is \<open>1 / (k + rank)\<close> and
  \<open>rrf_add\<close> is \<open>rrfScores.set(id, (rrfScores.get(id) ?? 0) + 1 / (k + rank))\<close>.
\<close>

definition rrf_term :: "nat \<Rightarrow> rat" where
  "rrf_term rank = js_div 1 (of_nat (RRF_K + rank))"

definition rrf_add :: "(string \<times> rat) list \<Rightarrow> string \<Rightarrow> nat \<Rightarrow> (string \<times> rat) list" where
  "rrf_add rrfScores pid index' =
     (let rank = index' + 1
      in map_set rrfScores pid
           (js_add (case map_get rrfScores pid of Some s \<Rightarrow> s | None \<Rightarrow> 0) (rrf_term rank)))"

definition add_vector_results ::
  "scored_point list \<Rightarrow> (string \<times> rat) list \<times> (string \<times> obj) list
     \<Rightarrow> (string \<times> rat) list \<times> (string \<times> obj) list" where
  "add_vector_results vectorResults maps =
     foldl (\<lambda>(rrfScores, pointsById) (index', result).
              (rrf_add rrfScores (sp_id result) index',
               map_set pointsById (sp_id result) (sp_payload result)))
           maps (enumerate 0 vectorResults)"

definition add_text_results ::
  "qdrant_point list \<Rightarrow> (string \<times> rat) list \<times> (string \<times> obj) list
     \<Rightarrow> (string \<times> rat) list \<times> (string \<times> obj) list" where
  "add_text_results textResults maps =
     foldl (\<lambda>(rrfScores, pointsById) (index', result).
              (rrf_add rrfScores (point_id result) index',
               (if map_get pointsById (point_id result) = None
                then map_set pointsById (point_id result) (point_payload result)
                else pointsById)))
           maps (enumerate 0 textResults)"

definition rrf_maps ::
  "scored_point list \<Rightarrow> qdrant_point list \<Rightarrow> (string \<times> rat) list \<times> (string \<times> obj) list" where
  "rrf_maps vectorResults textResults =
     add_text_results textResults (add_vector_results vectorResults ([], []))"

text \<open>
  \<open>Array.prototype.sort\<close> is stable: \<open>a\<close> comes before \<open>b\<close> when the comparator gives a
  negative number for \<open>(a, b)\<close>, after \<open>b\<close> when it gives a positive one, and two elements
  that it gives 0 for keep their order. \<open>insert_by\<close> puts an element in front of a sorted
  list, where it stood, and moves it behind the elements that come before it.
  \<open>sort_by_score_desc\<close> is \<open>sort((a, b) => b[1] - a[1])\<close>.
\<close>

fun insert_by :: "('a \<Rightarrow> 'a \<Rightarrow> rat) \<Rightarrow> 'a \<Rightarrow> 'a list \<Rightarrow> 'a list" where
  "insert_by compareFn x [] = [x]"
| "insert_by compareFn x (y # ys) =
     (if compareFn x y \<le> 0 then x # y # ys else y # insert_by compareFn x ys)"

definition array_sort :: "('a \<Rightarrow> 'a \<Rightarrow> rat) \<Rightarrow> 'a list \<Rightarrow> 'a list" where
  "array_sort compareFn xs = foldr (insert_by compareFn) xs []"

definition sort_by_score_desc :: "(string \<times> rat) list \<Rightarrow> (string \<times> rat) list" where
  "sort_by_score_desc entries = array_sort (\<lambda>a b. js_sub (snd b) (snd a)) entries"

definition rrf_fuse :: "search_params \<Rightarrow> scored_point list \<Rightarrow> qdrant_point list \<Rightarrow> search_result list" where
  "rrf_fuse params vectorResults textResults =
     (let limit = (case p_limit params of Some l \<Rightarrow> l | None \<Rightarrow> DEFAULT_SEARCH_LIMIT);
          offset = (case p_offset params of Some off \<Rightarrow> off | None \<Rightarrow> 0);
          (rrfScores, pointsById) = rrf_maps vectorResults textResults
      in concat (map (\<lambda>(pid, score).
                        case map_get pointsById pid of
                          None \<Rightarrow> []
                        | Some payload \<Rightarrow> [to_result pid score payload])
                     (slice (sort_by_score_desc rrfScores) offset (offset + limit))))"

definition hybridSearchWithRRF ::
  "index_env \<Rightarrow> search_params \<Rightarrow> condition list option \<Rightarrow> nat \<Rightarrow> search_result list qdrant_op" where
  "hybridSearchWithRRF ienv params qfilter now =
     (let limit = (case p_limit params of Some l \<Rightarrow> l | None \<Rightarrow> DEFAULT_SEARCH_LIMIT);
          fetchLimit = limit * RRF_FETCH_MULTIPLIER
      in and_then (call_index (client_search ienv (vector_name params) (query_vector params)
                                 qfilter fetchLimit 0 (p_scoreThreshold params))) (\<lambda>vectorResults.
           let queryText = (case p_query params of Some q \<Rightarrow> q | None \<Rightarrow> []);
               textFilter = Some ((case qfilter of Some must \<Rightarrow> must | None \<Rightarrow> []) @
                                  [MatchText ''content'' queryText])
           in and_then (call_index (client_scroll ienv textFilter fetchLimit 0)) (\<lambda>textResults s.
                let sortedResults = rrf_fuse params vectorResults textResults;
                    resultIds = map sr_id sortedResults
                in (Inr sortedResults, track_after_search resultIds now s))))"

definition without_payload :: "scored_point \<Rightarrow> scored_point" where
  "without_payload sp = sp\<lparr>sp_payload := []\<rparr>"

definition search :: "qdrant_config \<Rightarrow> index_env \<Rightarrow> search_params \<Rightarrow> nat \<Rightarrow> search_result list qdrant_op" where
  "search cfg ienv params now =
     and_then (ensureInitialized cfg) (\<lambda>_.
       let qfilter = buildFilter now (p_filter params)
       in if p_useHybridSearch params = Some True \<and> p_query params \<noteq> None \<and> p_query params \<noteq> Some []
          then hybridSearchWithRRF ienv params qfilter now
          else
            and_then (call_index (client_search ienv (vector_name params) (query_vector params) qfilter
                        (case p_limit params of Some l \<Rightarrow> l | None \<Rightarrow> DEFAULT_SEARCH_LIMIT)
                        (case p_offset params of Some off \<Rightarrow> off | None \<Rightarrow> 0)
                        (p_scoreThreshold params))) (\<lambda>found_points s.
              let results = (if p_withPayload params \<noteq> Some False then found_points
                             else map without_payload found_points);
                  resultIds = map sp_id results
              in (Inr (map (\<lambda>r. to_result (sp_id r) (sp_score r) (sp_payload r)) results),
                  track_after_search resultIds now s)))"

section \<open>Response envelope (utils/response.ts) and tool handlers (tools/memory-tools.ts)\<close>

datatype error_type =
    VALIDATION_ERROR | CONNECTION_ERROR | TIMEOUT_ERROR | SERVER_ERROR | CLIENT_ERROR
  | NOT_FOUND_ERROR | AUTHENTICATION_ERROR | EXECUTION_ERROR | UNKNOWN_ERROR

record response =
  r_success :: bool
  r_message :: string
  r_data :: "json option"
  r_metadata :: "obj option"
  r_error :: "string option"
  r_error_type :: "error_type option"

definition successResponse :: "string \<Rightarrow> json option \<Rightarrow> obj option \<Rightarrow> response" where
  "successResponse msg dat meta =
     \<lparr> r_success = True, r_message = msg, r_data = dat, r_metadata = meta,
       r_error = None, r_error_type = None \<rparr>"

definition errorResponse :: "string \<Rightarrow> error_type \<Rightarrow> string option \<Rightarrow> obj option \<Rightarrow> response" where
  "errorResponse msg errorType err meta =
     \<lparr> r_success = False, r_message = msg, r_data = None, r_metadata = meta,
       r_error = Some (case err of Some e \<Rightarrow> e | None \<Rightarrow> msg), r_error_type = Some errorType \<rparr>"

fun truthy :: "json \<Rightarrow> bool" where
  "truthy JNull = False"
| "truthy (JBool b) = b"
| "truthy (JNum n) = (n \<noteq> 0)"
| "truthy (JStr s) = (s \<noteq> [])"
| "truthy _ = True"

definition validationError :: "string \<Rightarrow> json option \<Rightarrow> response" where
  "validationError msg details =
     errorResponse msg VALIDATION_ERROR (Some msg)
       (case details of
          Some d \<Rightarrow> (if truthy d then Some [(''validation_details'', d)] else None)
        | None \<Rightarrow> None)"

definition notFoundError :: "string \<Rightarrow> response" where
  "notFoundError resource = errorResponse (resource @ '' not found'') NOT_FOUND_ERROR None None"

definition EPISODIC_EXPIRY_DAYS :: nat where "EPISODIC_EXPIRY_DAYS = 90"
definition SHORT_TERM_EXPIRY_DAYS :: nat where "SHORT_TERM_EXPIRY_DAYS = 7"
definition CONTENT_PREVIEW_LENGTH :: nat where "CONTENT_PREVIEW_LENGTH = 200"
definition CHUNK_THRESHOLD_LENGTH :: nat where "CHUNK_THRESHOLD_LENGTH = 1000"
definition MS_PER_DAY :: nat where "MS_PER_DAY = 86400000"

text \<open>
  The input schemas (schemas/memory-schemas.ts) are checked by the Zod library, an
  external collaborator. \<open>parse\<close> either gives the parsed input or throws a \<open>ZodError\<close> with
  the list of issues; an issue is reduced here to the path of the offending value.
\<close>

definition CONTENT_MAX_LENGTH :: nat where "CONTENT_MAX_LENGTH = 100000"
definition TAG_MAX_LENGTH :: nat where "TAG_MAX_LENGTH = 50"
definition TAGS_MAX_COUNT :: nat where "TAGS_MAX_COUNT = 20"

definition is_workspace_char :: "char \<Rightarrow> bool" where
  "is_workspace_char c = (is_alnum c \<or> c = CHR ''_'' \<or> c = CHR ''-'')"

definition is_hex_char :: "char \<Rightarrow> bool" where
  "is_hex_char c =
     (((48::nat) \<le> of_char c \<and> of_char c \<le> (57::nat)) \<or>
      ((65::nat) \<le> of_char c \<and> of_char c \<le> (70::nat)) \<or>
      ((97::nat) \<le> of_char c \<and> of_char c \<le> (102::nat)))"

definition is_uuid :: "string \<Rightarrow> bool" where
  "is_uuid s =
     (length s = 36 \<and>
      list_all (\<lambda>(i, c). if i = 8 \<or> i = 13 \<or> i = 18 \<or> i = 23 then c = CHR ''-'' else is_hex_char c)
               (enumerate 0 s))"

definition issue :: "string list \<Rightarrow> json" where
  "issue path = JObj [(''path'', JList (map JStr path))]"

fun valid_tag :: "json \<Rightarrow> bool" where
  "valid_tag (JStr s) = (1 \<le> length s \<and> length s \<le> TAG_MAX_LENGTH)"
| "valid_tag _ = False"

definition metadata_issues :: "obj \<Rightarrow> json list" where
  "metadata_issues m =
     (case map_get m ''memory_type'' of
        None \<Rightarrow> []
      | Some (JStr t) \<Rightarrow> (if t = ''episodic'' \<or> t = ''short-term'' \<or> t = ''long-term'' then []
                          else [issue [''metadata'', ''memory_type'']])
      | Some _ \<Rightarrow> [issue [''metadata'', ''memory_type'']]) @
     (case map_get m ''workspace'' of
        None \<Rightarrow> []
      | Some JNull \<Rightarrow> []
      | Some (JStr w) \<Rightarrow> (if w \<noteq> [] \<and> list_all is_workspace_char w then []
                          else [issue [''metadata'', ''workspace'']])
      | Some _ \<Rightarrow> [issue [''metadata'', ''workspace'']]) @
     (case map_get m ''confidence'' of
        None \<Rightarrow> []
      | Some (JNum c) \<Rightarrow> (if 0 \<le> c \<and> c \<le> 1 then [] else [issue [''metadata'', ''confidence'']])
      | Some _ \<Rightarrow> [issue [''metadata'', ''confidence'']]) @
     (case map_get m ''expires_at'' of
        None \<Rightarrow> []
      | Some JNull \<Rightarrow> []
      | Some (JTime t) \<Rightarrow> []
      | Some _ \<Rightarrow> [issue [''metadata'', ''expires_at'']]) @
     (case map_get m ''tags'' of
        None \<Rightarrow> []
      | Some (JList ts) \<Rightarrow> (if length ts \<le> TAGS_MAX_COUNT \<and> list_all valid_tag ts then []
                            else [issue [''metadata'', ''tags'']])
      | Some _ \<Rightarrow> [issue [''metadata'', ''tags'']])"

record store_input =
  si_content :: string
  si_metadata :: "obj option"
  si_auto_chunk :: bool

definition parse_store_input :: "json \<Rightarrow> json list + store_input" where
  "parse_store_input args =
     (case args of
        JObj props \<Rightarrow>
          let content_issues =
                (case map_get props ''content'' of
                   Some (JStr c) \<Rightarrow> (if 1 \<le> length c \<and> length c \<le> CONTENT_MAX_LENGTH then []
                                      else [issue [''content'']])
                 | _ \<Rightarrow> [issue [''content'']]);
              meta_issues =
                (case map_get props ''metadata'' of
                   None \<Rightarrow> []
                 | Some (JObj m) \<Rightarrow> metadata_issues m
                 | Some _ \<Rightarrow> [issue [''metadata'']]);
              chunk_issues =
                (case map_get props ''auto_chunk'' of
                   None \<Rightarrow> []
                 | Some (JBool b) \<Rightarrow> []
                 | Some _ \<Rightarrow> [issue [''auto_chunk'']]);
              issues = content_issues @ meta_issues @ chunk_issues
          in if issues \<noteq> [] then Inl issues
             else Inr \<lparr> si_content = (case map_get props ''content'' of Some (JStr c) \<Rightarrow> c | _ \<Rightarrow> []),
                        si_metadata = (case map_get props ''metadata'' of Some (JObj m) \<Rightarrow> Some m | _ \<Rightarrow> None),
                        si_auto_chunk = (case map_get props ''auto_chunk'' of Some (JBool b) \<Rightarrow> b | _ \<Rightarrow> True) \<rparr>
      | _ \<Rightarrow> Inl [issue []])"

definition parse_id_input :: "json \<Rightarrow> json list + string" where
  "parse_id_input args =
     (case args of
        JObj props \<Rightarrow>
          (case map_get props ''id'' of
             Some (JStr s) \<Rightarrow> (if is_uuid s then Inr s else Inl [issue [''id'']])
           | _ \<Rightarrow> Inl [issue [''id'']])
      | _ \<Rightarrow> Inl [issue []])"

text \<open>
  What a handler reads from its surroundings: the clock (\<open>te_now\<close> for every reading during
  the call, \<open>te_elapsed\<close> for the measured duration), the identifiers \<open>uuidv4()\<close> returns in
  the order of the calls, the regular-expression engine, the workspace the detector finds,
  and the embedding service, whose methods give vectors or throw.
\<close>

record embedded_chunk =
  ch_chunk :: string
  ch_embedding :: vector
  ch_index :: nat
  ch_total :: nat

record tool_env =
  te_now :: nat
  te_elapsed :: nat
  te_uuid :: "nat \<Rightarrow> string"
  te_matchAll :: regex_engine
  te_detected_workspace :: "string option"
  te_generateChunkedEmbeddings :: "string \<Rightarrow> string + embedded_chunk list"
  te_generateLargeEmbedding :: "string \<Rightarrow> string + vector"
  te_generateDualEmbeddings :: "string \<Rightarrow> string + (vector \<times> vector)"
  te_config :: qdrant_config
  te_index_env :: index_env

definition toLowerCase_char :: "char \<Rightarrow> char" where
  "toLowerCase_char c =
     (if (65::nat) \<le> of_char c \<and> of_char c \<le> (90::nat) then char_of (of_char c + (32::nat)) else c)"

definition toLowerCase :: "string \<Rightarrow> string" where
  "toLowerCase s = map toLowerCase_char s"

fun confidence_name :: "confidence \<Rightarrow> string" where
  "confidence_name High = ''high''"
| "confidence_name Medium = ''medium''"
| "confidence_name Low = ''low''"

definition secret_to_json :: "detected_secret \<Rightarrow> json" where
  "secret_to_json s =
     JObj [ (''type'', JStr (type_name (stype s))),
            (''pattern'', JStr (spattern s)),
            (''confidence'', JStr (confidence_name (sconfidence s))),
            (''context'', JStr (scontext s)) ]"

text \<open>The envelope returned when the scan blocks the content.\<close>

definition secrets_blocked_response :: "regex_engine \<Rightarrow> string \<Rightarrow> safety_check \<Rightarrow> response" where
  "secrets_blocked_response matchAll content safetyCheck =
     (let detection = detectSecrets matchAll content;
          secretsList = (case safe_secrets safetyCheck of
                           Some ss \<Rightarrow> map secret_to_json ss
                         | None \<Rightarrow> [])
      in errorResponse ''Cannot store content containing sensitive information''
           VALIDATION_ERROR (reason safetyCheck)
           (Some [ (''error_code'', JStr ''SECRETS_DETECTED''),
                   (''secrets_detected'', JList secretsList),
                   (''summary'', JStr (getSecretsSummary detection)),
                   (''suggestion'', JStr ''Remove sensitive data before storing. Use placeholders like [API_KEY] or [PASSWORD] instead.''),
                   (''sanitized_preview'',
                      JStr ((case sanitized detection of
                               Some s \<Rightarrow> slice s 0 CONTENT_PREVIEW_LENGTH
                             | None \<Rightarrow> ''undefined'') @ ''...'')) ]))"

text \<open>The metadata the handler builds before it stores: the expiry derived from the
  memory type, the detected workspace, the workspace in lower case.\<close>

definition with_expiry :: "nat \<Rightarrow> obj \<Rightarrow> obj" where
  "with_expiry now m =
     (if map_get m ''expires_at'' = None
      then (if map_get m ''memory_type'' = Some (JStr ''episodic'')
            then map_set m ''expires_at'' (JTime (now + EPISODIC_EXPIRY_DAYS * MS_PER_DAY))
            else if map_get m ''memory_type'' = Some (JStr ''short-term'')
            then map_set m ''expires_at'' (JTime (now + SHORT_TERM_EXPIRY_DAYS * MS_PER_DAY))
            else m)
      else m)"

definition with_workspace :: "string option \<Rightarrow> obj \<Rightarrow> obj" where
  "with_workspace detected m =
     (let m1 = (if map_get m ''workspace'' = None
                then map_set m ''workspace'' (case detected of Some w \<Rightarrow> JStr w | None \<Rightarrow> JNull)
                else m)
      in case map_get m1 ''workspace'' of
           Some (JStr w) \<Rightarrow> map_set m1 ''workspace'' (JStr (toLowerCase w))
         | _ \<Rightarrow> m1)"

text \<open>An object literal whose property is \<open>undefined\<close> when the field is absent.\<close>

definition optional_field :: "string \<Rightarrow> json option \<Rightarrow> obj" where
  "optional_field k v = (case v of Some x \<Rightarrow> [(k, x)] | None \<Rightarrow> [])"

text \<open>The loop over the chunks: each chunk gets its large vector and is upserted; the first
  step that throws ends the loop, and the chunks stored before it stay stored.\<close>

fun store_chunks ::
  "tool_env \<Rightarrow> obj \<Rightarrow> string \<Rightarrow> nat \<Rightarrow> embedded_chunk list \<Rightarrow> string list \<Rightarrow> string list qdrant_op" where
  "store_chunks env m chunkGroupId n [] ids = resolve ids"
| "store_chunks env m chunkGroupId n (c # cs) ids =
     (case te_generateLargeEmbedding env (ch_chunk c) of
        Inl err \<Rightarrow> reject err
      | Inr largeEmbedding \<Rightarrow>
          and_then (upsert (te_config env) (ch_chunk c) (ch_embedding c)
                      (spread m [ (''chunk_index'', JNum (of_nat (ch_index c))),
                                  (''total_chunks'', JNum (of_nat (ch_total c))),
                                  (''chunk_group_id'', JStr chunkGroupId) ])
                      (Some largeEmbedding) (te_uuid env n) (te_now env))
            (\<lambda>pid. store_chunks env m chunkGroupId (n + 1) cs (ids @ [pid])))"

definition store_after_scan :: "tool_env \<Rightarrow> store_input \<Rightarrow> json qdrant_op" where
  "store_after_scan env input' =
     (let m0 = (case si_metadata input' of Some m \<Rightarrow> m | None \<Rightarrow> []);
          m = with_workspace (te_detected_workspace env) (with_expiry (te_now env) m0)
      in if si_auto_chunk input' \<and> length (si_content input') > CHUNK_THRESHOLD_LENGTH
         then (case te_generateChunkedEmbeddings env (si_content input') of
                 Inl err \<Rightarrow> reject err
               | Inr chunked \<Rightarrow>
                   and_then (store_chunks env m (te_uuid env 0) 1 chunked []) (\<lambda>ids.
                     resolve (JObj ([ (''ids'', JList (map JStr ids)),
                                      (''chunks'', JNum (of_nat (length chunked))) ] @
                                    optional_field ''memory_type'' (map_get m ''memory_type'') @
                                    optional_field ''workspace'' (map_get m ''workspace'')))))
         else (case te_generateDualEmbeddings env (si_content input') of
                 Inl err \<Rightarrow> reject err
               | Inr (small, large) \<Rightarrow>
                   and_then (upsert (te_config env) (si_content input') small m (Some large)
                               (te_uuid env 0) (te_now env)) (\<lambda>pid.
                     resolve (JObj ([ (''id'', JStr pid) ] @
                                    optional_field ''memory_type'' (map_get m ''memory_type'') @
                                    optional_field ''workspace'' (map_get m ''workspace'') @
                                    optional_field ''confidence'' (map_get m ''confidence''))))))"

definition memoryStoreHandler :: "tool_env \<Rightarrow> json \<Rightarrow> qdrant_state \<Rightarrow> response \<times> qdrant_state" where
  "memoryStoreHandler env args s =
     (case parse_store_input args of
        Inl issues \<Rightarrow> (validationError ''Invalid input parameters'' (Some (JList issues)), s)
      | Inr input' \<Rightarrow>
          let safetyCheck = isSafeToStore (te_matchAll env) (si_content input')
          in if \<not> safe safetyCheck
             then (secrets_blocked_response (te_matchAll env) (si_content input') safetyCheck, s)
             else (case store_after_scan env input' s of
                     (Inl err, s') \<Rightarrow>
                       (errorResponse ''Failed to store memory'' EXECUTION_ERROR (Some err) None, s')
                   | (Inr dat, s') \<Rightarrow>
                       (successResponse
                          (if si_auto_chunk input' \<and> length (si_content input') > CHUNK_THRESHOLD_LENGTH
                           then ''Memory stored successfully (chunked)''
                           else ''Memory stored successfully'')
                          (Some dat) (Some [(''duration_ms'', JNum (of_nat (te_elapsed env)))]), s')))"

definition memoryGetHandler :: "tool_env \<Rightarrow> json \<Rightarrow> qdrant_state \<Rightarrow> response \<times> qdrant_state" where
  "memoryGetHandler env args s =
     (case parse_id_input args of
        Inl issues \<Rightarrow> (validationError ''Invalid input parameters'' (Some (JList issues)), s)
      | Inr pid \<Rightarrow>
          (case get (te_config env) pid (te_now env) s of
             (Inl err, s') \<Rightarrow>
               (errorResponse ''Failed to get memory'' EXECUTION_ERROR (Some err) None, s')
           | (Inr None, s') \<Rightarrow> (notFoundError (''Memory with ID '' @ pid), s')
           | (Inr (Some result), s') \<Rightarrow>
               (successResponse ''Memory retrieved successfully''
                  (Some (JObj [ (''id'', JStr (sr_id result)),
                                (''content'', JStr (sr_content result)),
                                (''metadata'', JObj (sr_metadata result)) ]))
                  (Some [(''duration_ms'', JNum (of_nat (te_elapsed env)))]), s')))"

definition memoryDeleteHandler :: "tool_env \<Rightarrow> json \<Rightarrow> qdrant_state \<Rightarrow> response \<times> qdrant_state" where
  "memoryDeleteHandler env args s =
     (case parse_id_input args of
        Inl issues \<Rightarrow> (validationError ''Invalid input parameters'' (Some (JList issues)), s)
      | Inr pid \<Rightarrow>
          (case get (te_config env) pid (te_now env) s of
             (Inl err, s') \<Rightarrow>
               (errorResponse ''Failed to delete memory'' EXECUTION_ERROR (Some err) None, s')
           | (Inr None, s') \<Rightarrow> (notFoundError (''Memory with ID '' @ pid), s')
           | (Inr (Some existing), s') \<Rightarrow>
               (case delete (te_config env) pid s' of
                  (Inl err, s'') \<Rightarrow>
                    (errorResponse ''Failed to delete memory'' EXECUTION_ERROR (Some err) None, s'')
                | (Inr _, s'') \<Rightarrow>
                    (successResponse ''Memory deleted successfully''
                       (Some (JObj [(''id'', JStr pid)]))
                       (Some [(''duration_ms'', JNum (of_nat (te_elapsed env)))]), s''))))"

section \<open>Concrete configurations and states\<close>

text \<open>A collection that is ready (created with the configured dimensions, the service
  initialised, the index reachable), points to put into it, and the surroundings of a
  tool call.\<close>

definition example_qdrant_config :: qdrant_config where
  "example_qdrant_config = \<lparr>collectionName = ''mcp-memory'', smallDimensions = 3, largeDimensions = 3\<rparr>"

definition example_index_env :: index_env where
  "example_index_env = \<lparr> similarity = (\<lambda>name v p. 1 / 2), text_match = (\<lambda>q s. q = s) \<rparr>"

definition unit_vector :: vector where
  "unit_vector = [Finite 1, Finite 0, Finite 0]"

definition ready_state :: "qdrant_point list \<Rightarrow> qdrant_state" where
  "ready_state ps =
     \<lparr> initialized = True, accessTrackingFailureCount = 0, lastTrackingWarningTime = 0,
       idx = \<lparr> collection = Some (expected_vectors example_qdrant_config), points = ps,
               online = True, rpc_log = [] \<rparr> \<rparr>"

definition example_id :: string where
  "example_id = ''550e8400-e29b-41d4-a716-446655440000''"

definition other_id :: string where
  "other_id = ''550e8400-e29b-41d4-a716-446655440001''"

definition expired_point :: qdrant_point where
  "expired_point =
     \<lparr> point_id = example_id, vec_dense = unit_vector, vec_dense_large = Some unit_vector,
       point_payload = [ (''content'', JStr ''yesterday''), (''memory_type'', JStr ''short-term''),
                         (''expires_at'', JTime 500) ] \<rparr>"

definition lasting_point :: qdrant_point where
  "lasting_point =
     \<lparr> point_id = other_id, vec_dense = unit_vector, vec_dense_large = Some unit_vector,
       point_payload = [ (''content'', JStr ''always''), (''memory_type'', JStr ''long-term'') ] \<rparr>"

definition no_filters :: search_filters where
  "no_filters = \<lparr> f_workspace = None, f_memory_type = None, f_minConfidence = None,
                   f_tags = None, f_metadata = None \<rparr>"

definition example_tool_env :: tool_env where
  "example_tool_env =
     \<lparr> te_now = 2000, te_elapsed = 5,
       te_uuid = (\<lambda>n. ''00000000-0000-4000-8000-00000000000'' @ string_of_nat n),
       te_matchAll = openai_only_engine,
       te_detected_workspace = Some ''Memory'',
       te_generateChunkedEmbeddings =
         (\<lambda>text. Inr [\<lparr>ch_chunk = text, ch_embedding = unit_vector, ch_index = 0, ch_total = 1\<rparr>]),
       te_generateLargeEmbedding = (\<lambda>text. Inr unit_vector),
       te_generateDualEmbeddings = (\<lambda>text. Inr (unit_vector, unit_vector)),
       te_config = example_qdrant_config,
       te_index_env = example_index_env \<rparr>"

definition id_args :: "string \<Rightarrow> json" where
  "id_args pid = JObj [(''id'', JStr pid)]"

definition content_args :: "string \<Rightarrow> json" where
  "content_args content = JObj [(''content'', JStr content)]"

text \<open>An index for the scenario of the specification for the fusion, with a third hit in
  each list that the other list does not have: the dense search prefers \<open>A\<close> to \<open>B\<close> to \<open>C\<close>
  and leaves \<open>D\<close> under the threshold, the text index matches a content that begins with
  the query, in the order of the points.\<close>

definition fusion_point :: "string \<Rightarrow> string \<Rightarrow> qdrant_point" where
  "fusion_point pid content =
     \<lparr> point_id = pid, vec_dense = unit_vector, vec_dense_large = None,
       point_payload = [(''content'', JStr content)] \<rparr>"

definition fusion_points :: "qdrant_point list" where
  "fusion_points = [fusion_point ''B'' ''cache size'', fusion_point ''A'' ''cache policy'',
                    fusion_point ''C'' ''retry policy'', fusion_point ''D'' ''cache'']"

definition fusion_index_env :: index_env where
  "fusion_index_env =
     \<lparr> similarity = (\<lambda>name v p. if point_id p = ''A'' then 9 / 10 else if point_id p = ''B'' then 8 / 10
                                 else if point_id p = ''C'' then 7 / 10 else 1 / 10),
       text_match = (\<lambda>q s. take (length q) s = q) \<rparr>"

definition fusion_params :: search_params where
  "fusion_params =
     \<lparr> p_vector = unit_vector, p_vectorLarge = None, p_filter = None,
       p_limit = None, p_offset = None, p_scoreThreshold = Some (1 / 2), p_withPayload = None,
       p_query = Some ''cache'', p_useHybridSearch = Some True \<rparr>"

definition fusion_vector_results :: "scored_point list" where
  "fusion_vector_results =
     map (score_point fusion_index_env ''dense'' unit_vector)
       [fusion_point ''A'' ''cache policy'', fusion_point ''B'' ''cache size'', fusion_point ''C'' ''retry policy'']"

definition fusion_text_results :: "qdrant_point list" where
  "fusion_text_results =
     [fusion_point ''B'' ''cache size'', fusion_point ''A'' ''cache policy'', fusion_point ''D'' ''cache'']"

definition default_params :: search_params where
  "default_params =
     \<lparr> p_vector = unit_vector, p_vectorLarge = Some unit_vector, p_filter = None,
       p_limit = None, p_offset = None, p_scoreThreshold = None, p_withPayload = None,
       p_query = Some ''A'', p_useHybridSearch = Some True \<rparr>"

text \<open>The fold of \<open>rrf_add\<close> over the identifiers of one result list, from rank \<open>n + 1\<close>,
  and the doubles as multiples of the least positive double.\<close>

definition rrf_fold :: "string list \<Rightarrow> nat \<Rightarrow> (string \<times> rat) list \<Rightarrow> (string \<times> rat) list" where
  "rrf_fold ids n sc = foldl (\<lambda>sc (i, pid). rrf_add sc pid i) sc (enumerate n ids)"

definition on_grid :: "rat \<Rightarrow> bool" where
  "on_grid x = (\<exists>k::int. x = of_int k * 2 powi (- 1074))"

text \<open>The detections that decide a block: the high-confidence ones when there are any,
  otherwise the medium-confidence ones.\<close>

definition blocking_secrets :: "regex_engine \<Rightarrow> string \<Rightarrow> detected_secret list" where
  "blocking_secrets matchAll content =
     (let ds = secrets (detectSecrets matchAll content);
          high = filter (\<lambda>s. sconfidence s = High) ds
      in if high \<noteq> [] then high else filter (\<lambda>s. sconfidence s = Medium) ds)"

definition response_metadata :: "response \<Rightarrow> obj" where
  "response_metadata r = (case r_metadata r of Some m \<Rightarrow> m | None \<Rightarrow> [])"

section \<open>Verification\<close>

subsection \<open>Deduplication leaves no overlapping detections\<close>
















subsection \<open>The admission decision\<close>

lemma count_list_map_filter: "count_list (map f xs) y = length (filter (\<lambda>x. f x = y) xs)"
  by (induction xs) auto

text \<open>
  Claim C2. For every input text, \<open>isSafeToStore\<close> blocks when some deduplicated detection
  has high confidence; otherwise it blocks when at least 3 deduplicated detections have
  medium confidence; otherwise it admits with a reason when there is any detection; otherwise
  it admits with no reason.
\<close>

theorem isSafeToStore_decision:
  "(let ds = secrets (detectSecrets rx content); r = isSafeToStore rx content
    in if High \<in> set (map sconfidence ds) then \<not> safe r
       else if count_list (map sconfidence ds) Medium \<ge> 3 then \<not> safe r
       else if ds \<noteq> [] then safe r \<and> reason r \<noteq> None
       else safe r \<and> reason r = None)"
proof -
  have h: "(High \<in> set (map sconfidence ds)) = (length (filter (\<lambda>s. sconfidence s = High) ds) > 0)"
    for ds :: "detected_secret list"
    by (induction ds) auto
  show ?thesis
    unfolding Let_def h count_list_map_filter
    by (simp add: isSafeToStore_def detectSecrets_def Let_def MEDIUM_CONFIDENCE_BLOCK_THRESHOLD_def)
qed

subsection \<open>The cache and the statistics of the embedding service\<close>

lemma map_get_None_iff: "map_get m k = None \<longleftrightarrow> k \<notin> set (map fst m)"
  by (induction m) (auto split: if_splits)

lemma map_set_fresh: "k \<notin> set (map fst m) \<Longrightarrow> map_set m k v = m @ [(k, v)]"
  by (induction m) (auto split: if_splits)

lemma length_map_set_le: "length (map_set m k v) \<le> length m + 1"
  by (induction m) auto

lemma length_map_delete_le: "length (map_delete m k) \<le> length m"
  by (induction m) auto

lemma length_map_delete_present:
  "k \<in> set (map fst m) \<Longrightarrow> length (map_delete m k) + 1 = length m"
  by (induction m) (fastforce simp: image_iff split: if_splits)+

lemma map_delete_filter:
  "distinct (map fst m) \<Longrightarrow> map_delete m k = filter (\<lambda>e. fst e \<noteq> k) m"
proof (induction m)
  case Nil
  then show ?case by simp
next
  case (Cons e m)
  obtain k' v where e: "e = (k', v)" by (cases e)
  show ?case
  proof (cases "k' = k")
    case True
    with Cons.prems e have "k \<notin> set (map fst m)" by simp
    then have "filter (\<lambda>e. fst e \<noteq> k) m = m"
      by (intro filter_True) auto
    with True e show ?thesis by simp
  next
    case False
    with Cons e show ?thesis by simp
  qed
qed

lemma map_delete_keys_notin:
  "distinct (map fst m) \<Longrightarrow> k \<notin> set (map fst (map_delete m k))"
  by (auto simp: map_delete_filter)

lemma map_delete_distinct:
  "distinct (map fst m) \<Longrightarrow> distinct (map fst (map_delete m k))"
  by (simp add: map_delete_filter distinct_map_filter)

lemma map_delete_hd:
  "distinct (map fst ((k, v) # m)) \<Longrightarrow> map_delete ((k, v) # m) k = m"
  by simp


lemma map_get_Some_in: "map_get m k = Some c \<Longrightarrow> k \<in> set (map fst m)"
  using map_get_None_iff[of m k] by auto

lemma getCacheKey_cong:
  "SMALL_DIMENSIONS s' = SMALL_DIMENSIONS s \<Longrightarrow> LARGE_DIMENSIONS s' = LARGE_DIMENSIONS s \<Longrightarrow>
   getCacheKey env cfg s' text v = getCacheKey env cfg s text v"
  by (simp add: getCacheKey_def)

lemma generate_hit:
  assumes "map_get (cache s) (getCacheKey env cfg s text v) = Some c"
  shows "generate env cfg v text now s =
           (Inr (ce_embedding c),
            s\<lparr> totalEmbeddings := totalEmbeddings s + 1,
                cacheHits := cacheHits s + 1,
                cache := map_set (map_delete (cache s) (getCacheKey env cfg s text v))
                           (getCacheKey env cfg s text v)
                           (c\<lparr>ce_hits := ce_hits c + 1, ce_timestamp := now\<rparr>) \<rparr>)"
proof -
  have k: "getCacheKey env cfg (s\<lparr>totalEmbeddings := totalEmbeddings s + 1\<rparr>) text v
             = getCacheKey env cfg s text v"
    by (rule getCacheKey_cong) simp_all
  show ?thesis
    unfolding generate_def Let_def k using assms by simp
qed

lemma generate_miss:
  assumes "map_get (cache s) (getCacheKey env cfg s text v) = None"
  shows "generate env cfg v text now s =
           (case backend_result env cfg v text
                   (s\<lparr>totalEmbeddings := totalEmbeddings s + 1, cacheMisses := cacheMisses s + 1\<rparr>) of
              (Inl err, s2) \<Rightarrow> (Inl err, s2)
            | (Inr e, s2) \<Rightarrow> (Inr e, addToCache (getCacheKey env cfg s text v) e now s2))"
proof -
  have k: "getCacheKey env cfg (s\<lparr>totalEmbeddings := totalEmbeddings s + 1\<rparr>) text v
             = getCacheKey env cfg s text v"
    by (rule getCacheKey_cong) simp_all
  show ?thesis
    unfolding generate_def Let_def k backend_result_def using assms
    by (simp split: prod.splits sum.splits)
qed

lemma backend_result_state:
  "backend_result env cfg v text s = (r, s2) \<Longrightarrow>
     cache s2 = cache s \<and> maxCacheSize s2 = maxCacheSize s \<and> client s2 = client s \<and>
     SMALL_DIMENSIONS s2 = SMALL_DIMENSIONS s \<and> LARGE_DIMENSIONS s2 = LARGE_DIMENSIONS s \<and>
     totalEmbeddings s2 = totalEmbeddings s \<and> cacheHits s2 = cacheHits s \<and>
     cacheMisses s2 = cacheMisses s"
  unfolding backend_result_def generateOpenAIEmbedding_def Let_def
  by (auto split: if_splits sum.splits prod.splits)

lemma backend_result_answers:
  "backend_answers env cfg s v text \<Longrightarrow> \<exists>e s2. backend_result env cfg v text s = (Inr e, s2)"
  unfolding backend_result_def backend_answers_def generateOpenAIEmbedding_def Let_def is_Inr_def
  by (auto split: if_splits sum.splits prod.splits)

lemma addToCache_fields:
  "maxCacheSize (addToCache k e now s) = maxCacheSize s \<and> client (addToCache k e now s) = client s \<and>
   SMALL_DIMENSIONS (addToCache k e now s) = SMALL_DIMENSIONS s \<and>
   LARGE_DIMENSIONS (addToCache k e now s) = LARGE_DIMENSIONS s \<and>
   totalEmbeddings (addToCache k e now s) = totalEmbeddings s \<and>
   cacheHits (addToCache k e now s) = cacheHits s \<and>
   cacheMisses (addToCache k e now s) = cacheMisses s"
  unfolding addToCache_def evictLRU_def Let_def
  by (auto split: list.splits prod.splits)

lemma addToCache_length:
  assumes "0 < maxCacheSize s" "length (cache s) \<le> maxCacheSize s"
  shows "length (cache (addToCache k e now s)) \<le> maxCacheSize s"
proof (cases "length (cache s) \<ge> maxCacheSize s")
  case True
  with assms obtain k0 v0 m where c: "cache s = (k0, v0) # m"
    by (cases "cache s") auto
  have "length (map_set m k x) \<le> length m + 1" for x by (rule length_map_set_le)
  with True assms c show ?thesis
    by (simp add: addToCache_def evictLRU_def Let_def)
next
  case False
  have "length (map_set (cache s) k x) \<le> length (cache s) + 1" for x by (rule length_map_set_le)
  with False show ?thesis
    by (simp add: addToCache_def Let_def le_trans[OF length_map_set_le])
qed

lemma generate_inv:
  assumes "0 < maxCacheSize s" "stats_inv s"
  shows "stats_inv (snd (generate env cfg v text now s)) \<and>
         maxCacheSize (snd (generate env cfg v text now s)) = maxCacheSize s"
proof (cases "map_get (cache s) (getCacheKey env cfg s text v)")
  case (Some c)
  let ?k = "getCacheKey env cfg s text v"
  from map_get_Some_in[OF Some] have "length (map_delete (cache s) ?k) + 1 = length (cache s)"
    by (rule length_map_delete_present)
  moreover have "length (map_set (map_delete (cache s) ?k) ?k x) \<le> length (map_delete (cache s) ?k) + 1" for x
    by (rule length_map_set_le)
  ultimately have "length (map_set (map_delete (cache s) ?k) ?k x) \<le> length (cache s)" for x
    by metis
  moreover from assms have "length (cache s) \<le> maxCacheSize s" by (simp add: stats_inv_def)
  ultimately have "length (map_set (map_delete (cache s) ?k) ?k x) \<le> maxCacheSize s" for x
    using le_trans by blast
  with assms show ?thesis
    by (simp add: generate_hit[OF Some] stats_inv_def)
next
  case None
  let ?s1 = "s\<lparr>totalEmbeddings := totalEmbeddings s + 1, cacheMisses := cacheMisses s + 1\<rparr>"
  obtain r s2 where br: "backend_result env cfg v text ?s1 = (r, s2)" by force
  note st = backend_result_state[OF br]
  show ?thesis
  proof (cases r)
    case (Inl err)
    with br st assms show ?thesis
      by (simp add: generate_miss[OF None] stats_inv_def)
  next
    case (Inr e)
    from st assms have "0 < maxCacheSize s2" "length (cache s2) \<le> maxCacheSize s2"
      by (simp_all add: stats_inv_def)
    from addToCache_length[OF this] Inr br st assms addToCache_fields[of _ e now s2]
    show ?thesis
      by (simp add: generate_miss[OF None] stats_inv_def)
  qed
qed

lemma perform_inv:
  assumes "0 < maxCacheSize s" "stats_inv s"
  shows "stats_inv (snd (perform env cfg c s)) \<and> maxCacheSize (snd (perform env cfg c s)) = maxCacheSize s"
  using generate_inv[OF assms]
  by (cases c) (simp_all add: generateEmbedding_def generateLargeEmbedding_def)

lemma run_calls_inv:
  "0 < maxCacheSize s \<Longrightarrow> stats_inv s \<Longrightarrow>
   stats_inv (run_calls env cfg cs s) \<and> maxCacheSize (run_calls env cfg cs s) = maxCacheSize s"
proof (induction cs arbitrary: s)
  case Nil
  then show ?case by simp
next
  case (Cons c cs)
  from perform_inv[OF Cons.prems, of env cfg c]
  have a: "stats_inv (snd (perform env cfg c s))"
    and b: "maxCacheSize (snd (perform env cfg c s)) = maxCacheSize s" by simp_all
  from b Cons.prems(1) have "0 < maxCacheSize (snd (perform env cfg c s))" by simp
  from Cons.IH[OF this a] b show ?case by simp
qed

text \<open>
  Claim C10. After every finite sequence of \<open>generateEmbedding\<close> and
  \<open>generateLargeEmbedding\<close> calls on a service as the constructor builds it, whatever the
  backend answers, the statistics satisfy \<open>totalEmbeddings = cacheHits + cacheMisses\<close>,
  \<open>cacheHitRate\<close> is \<open>cacheHits / totalEmbeddings\<close> (0 when \<open>totalEmbeddings\<close> is 0), and the
  cache holds at most \<open>maxCacheSize\<close> entries.
\<close>

theorem stats_invariant:
  assumes "new_EmbeddingService cfg = Inr svc0"
  shows "(let svc = run_calls env cfg calls svc0; st = getStats svc
          in st_totalEmbeddings st = st_cacheHits st + st_cacheMisses st \<and>
             st_cacheHitRate st =
               (if st_totalEmbeddings st = 0 then 0
                else of_nat (st_cacheHits st) / of_nat (st_totalEmbeddings st)) \<and>
             length (cache svc) \<le> maxCacheSize svc)"
proof -
  from assms have "0 < maxCacheSize svc0" "stats_inv svc0"
    by (auto simp: new_EmbeddingService_def Let_def MAX_CACHE_SIZE_def stats_inv_def split: if_splits)
  from run_calls_inv[OF this, of env cfg calls] show ?thesis
    by (simp add: Let_def getStats_def stats_inv_def)
qed


theorem stats_invariant_witness:
  "new_EmbeddingService example_config = Inr example_service \<and>
   st_totalEmbeddings (getStats (run_calls example_env example_config stats_calls example_service)) = 4 \<and>
   st_cacheHits (getStats (run_calls example_env example_config stats_calls example_service)) = 2 \<and>
   st_cacheMisses (getStats (run_calls example_env example_config stats_calls example_service)) = 2 \<and>
   st_cacheHitRate (getStats (run_calls example_env example_config stats_calls example_service)) = 1 / 2 \<and>
   length (cache (run_calls example_env example_config stats_calls example_service))
     \<le> maxCacheSize (run_calls example_env example_config stats_calls example_service)"
proof -
  have n: "new_EmbeddingService example_config = Inr example_service"
    by (simp add: new_EmbeddingService_def example_config_def example_service_def)
  have v: "st_totalEmbeddings (getStats (run_calls example_env example_config stats_calls example_service)) = 4 \<and>
   st_cacheHits (getStats (run_calls example_env example_config stats_calls example_service)) = 2 \<and>
   st_cacheMisses (getStats (run_calls example_env example_config stats_calls example_service)) = 2"
    by code_simp
  from stats_invariant[OF n, of example_env stats_calls] v n show ?thesis
    by (simp add: Let_def)
qed

subsection \<open>Least-recently-used eviction\<close>

lemma call_key_same: "same_setup s s' \<Longrightarrow> call_key env cfg s' c = call_key env cfg s c"
  by (cases c) (simp_all add: same_setup_def getCacheKey_def)

lemma call_answered_same: "same_setup s s' \<Longrightarrow> call_answered env cfg s' c = call_answered env cfg s c"
  by (cases c) (simp_all add: same_setup_def backend_answers_def)

lemma perform_generate:
  "perform env cfg c s = generate env cfg (case c of GenerateEmbedding _ _ \<Rightarrow> Small | GenerateLargeEmbedding _ _ \<Rightarrow> Large)
      (case c of GenerateEmbedding t _ \<Rightarrow> t | GenerateLargeEmbedding t _ \<Rightarrow> t)
      (case c of GenerateEmbedding _ n \<Rightarrow> n | GenerateLargeEmbedding _ n \<Rightarrow> n) s"
  by (cases c) (simp_all add: generateEmbedding_def generateLargeEmbedding_def)

lemma perform_hit:
  assumes "map_get (cache s) (call_key env cfg s c) = Some e" "distinct (map fst (cache s))"
  shows "map fst (cache (snd (perform env cfg c s)))
           = filter (\<lambda>k. k \<noteq> call_key env cfg s c) (map fst (cache s)) @ [call_key env cfg s c]"
    and "cacheHits (snd (perform env cfg c s)) = cacheHits s + 1"
    and "cacheMisses (snd (perform env cfg c s)) = cacheMisses s"
    and "same_setup s (snd (perform env cfg c s))"
proof -
  let ?k = "call_key env cfg s c"
  have notin: "?k \<notin> set (map fst (map_delete (cache s) ?k))"
    using assms(2) by (rule map_delete_keys_notin)
  have keys: "map fst (map_set (map_delete (cache s) ?k) ?k x)
                = filter (\<lambda>k. k \<noteq> ?k) (map fst (cache s)) @ [?k]" for x
    using map_set_fresh[OF notin, of x] assms(2)
    by (simp add: map_delete_filter filter_map comp_def)
  show "map fst (cache (snd (perform env cfg c s)))
           = filter (\<lambda>k. k \<noteq> ?k) (map fst (cache s)) @ [?k]"
    using assms(1) keys
    by (cases c) (simp_all add: generateEmbedding_def generateLargeEmbedding_def generate_hit)
  show "cacheHits (snd (perform env cfg c s)) = cacheHits s + 1"
    using assms(1)
    by (cases c) (simp_all add: generateEmbedding_def generateLargeEmbedding_def generate_hit)
  show "cacheMisses (snd (perform env cfg c s)) = cacheMisses s"
    using assms(1)
    by (cases c) (simp_all add: generateEmbedding_def generateLargeEmbedding_def generate_hit)
  show "same_setup s (snd (perform env cfg c s))"
    using assms(1)
    by (cases c) (simp_all add: generateEmbedding_def generateLargeEmbedding_def generate_hit same_setup_def)
qed

lemma addToCache_keys:
  assumes "k \<notin> set (map fst (cache s))" "distinct (map fst (cache s))"
  shows "map fst (cache (addToCache k e now s))
           = (if length (cache s) \<ge> maxCacheSize s then tl (map fst (cache s)) else map fst (cache s)) @ [k]"
proof (cases "cache s")
  case Nil
  then show ?thesis by (simp add: addToCache_def evictLRU_def Let_def)
next
  case (Cons a m)
  obtain k0 v0 where a: "a = (k0, v0)" by (cases a)
  from assms Cons a have "k \<notin> set (map fst m)" by auto
  from map_set_fresh[OF this] have m: "map_set m k x = m @ [(k, x)]" for x by simp
  from assms(1) have c: "map_set (cache s) k x = cache s @ [(k, x)]" for x by (rule map_set_fresh)
  show ?thesis using Cons a m c
    by (simp add: addToCache_def evictLRU_def Let_def)
qed

lemma generate_miss_answered:
  assumes none: "map_get (cache s) (getCacheKey env cfg s text v) = None"
    and ans: "backend_answers env cfg s v text"
    and dist: "distinct (map fst (cache s))"
  shows "map fst (cache (snd (generate env cfg v text now s)))
           = (if length (cache s) \<ge> maxCacheSize s then tl (map fst (cache s)) else map fst (cache s))
             @ [getCacheKey env cfg s text v]"
    and "cacheHits (snd (generate env cfg v text now s)) = cacheHits s"
    and "cacheMisses (snd (generate env cfg v text now s)) = cacheMisses s + 1"
    and "same_setup s (snd (generate env cfg v text now s))"
proof -
  let ?s1 = "s\<lparr>totalEmbeddings := totalEmbeddings s + 1, cacheMisses := cacheMisses s + 1\<rparr>"
  let ?k = "getCacheKey env cfg s text v"
  from ans have "backend_answers env cfg ?s1 v text" by (auto simp: backend_answers_def split: if_splits)
  from backend_result_answers[OF this] obtain e s2
    where br: "backend_result env cfg v text ?s1 = (Inr e, s2)" by blast
  note st = backend_result_state[OF br]
  have g: "generate env cfg v text now s = (Inr e, addToCache ?k e now s2)"
    using br by (simp add: generate_miss[OF none])
  from none st have k: "?k \<notin> set (map fst (cache s2))" by (simp add: map_get_None_iff)
  from dist st have d: "distinct (map fst (cache s2))" by simp
  from addToCache_keys[OF k d, of e now] st
  show "map fst (cache (snd (generate env cfg v text now s)))
           = (if length (cache s) \<ge> maxCacheSize s then tl (map fst (cache s)) else map fst (cache s)) @ [?k]"
    by (simp add: g)
  from addToCache_fields[of ?k e now s2] st
  show "cacheHits (snd (generate env cfg v text now s)) = cacheHits s"
    and "cacheMisses (snd (generate env cfg v text now s)) = cacheMisses s + 1"
    and "same_setup s (snd (generate env cfg v text now s))"
    by (simp_all add: g same_setup_def)
qed

lemma perform_miss_answered:
  assumes "map_get (cache s) (call_key env cfg s c) = None"
    and "call_answered env cfg s c"
    and "distinct (map fst (cache s))"
  shows "map fst (cache (snd (perform env cfg c s)))
           = (if length (cache s) \<ge> maxCacheSize s then tl (map fst (cache s)) else map fst (cache s))
             @ [call_key env cfg s c]"
    and "cacheHits (snd (perform env cfg c s)) = cacheHits s"
    and "cacheMisses (snd (perform env cfg c s)) = cacheMisses s + 1"
    and "same_setup s (snd (perform env cfg c s))"
  using assms generate_miss_answered[of s env cfg _ _ _]
  by (cases c; simp add: generateEmbedding_def generateLargeEmbedding_def)+


lemma same_setup_refl: "same_setup s s"
  by (simp add: same_setup_def)

lemma same_setup_trans: "same_setup s s' \<Longrightarrow> same_setup s' s'' \<Longrightarrow> same_setup s s''"
  by (simp add: same_setup_def)

lemma run_calls_append:
  "run_calls env cfg (cs @ ds) s = run_calls env cfg ds (run_calls env cfg cs s)"
  by (induction cs arbitrary: s) simp_all

lemma run_calls_fill:
  assumes "distinct (map fst (cache s))"
    and "distinct (map (call_key env cfg s) cs)"
    and "set (map (call_key env cfg s) cs) \<inter> set (map fst (cache s)) = {}"
    and "\<forall>c\<in>set cs. call_answered env cfg s c"
    and "length (cache s) + length cs \<le> maxCacheSize s"
  shows "map fst (cache (run_calls env cfg cs s)) = map fst (cache s) @ map (call_key env cfg s) cs \<and>
         same_setup s (run_calls env cfg cs s)"
  using assms
proof (induction cs arbitrary: s)
  case Nil
  then show ?case by (simp add: same_setup_refl)
next
  case (Cons c cs)
  let ?s' = "snd (perform env cfg c s)"
  from Cons.prems(3) have none: "map_get (cache s) (call_key env cfg s c) = None"
    by (simp add: map_get_None_iff)
  from Cons.prems(4) have ans: "call_answered env cfg s c" by simp
  from Cons.prems(5) have lt: "\<not> length (cache s) \<ge> maxCacheSize s" by simp
  note pm = perform_miss_answered[OF none ans Cons.prems(1)]
  from pm(1) lt have keys': "map fst (cache ?s') = map fst (cache s) @ [call_key env cfg s c]"
    by simp
  note same = pm(4)
  have ck: "call_key env cfg ?s' = call_key env cfg s"
    using same by (intro ext call_key_same)
  have ca: "call_answered env cfg ?s' x = call_answered env cfg s x" for x
    using same by (rule call_answered_same)
  have d1: "distinct (map fst (cache ?s'))"
    using keys' Cons.prems(1,3) by auto
  have d2: "distinct (map (call_key env cfg ?s') cs)"
    using Cons.prems(2) by (simp add: ck)
  have d3: "set (map (call_key env cfg ?s') cs) \<inter> set (map fst (cache ?s')) = {}"
    using Cons.prems(2,3) keys' by (auto simp: ck)
  have d4: "\<forall>x\<in>set cs. call_answered env cfg ?s' x"
    using Cons.prems(4) by (simp add: ca)
  have len: "length (cache ?s') = length (cache s) + 1"
    using arg_cong[OF keys', of length] by simp
  have d5: "length (cache ?s') + length cs \<le> maxCacheSize ?s'"
    using Cons.prems(5) len same by (simp add: same_setup_def)
  from Cons.IH[OF d1 d2 d3 d4 d5] keys' same
  show ?case
    by (auto simp: ck intro: same_setup_trans)
qed

lemma lru_first_evicted:
  assumes M: "0 < maxCacheSize s0"
    and empty: "cache s0 = []"
    and len: "length cs = maxCacheSize s0 + 1"
    and dist: "distinct (map (call_key env cfg s0) cs)"
    and ans: "\<forall>c\<in>set cs. call_answered env cfg s0 c"
  shows "map fst (cache (run_calls env cfg cs s0))
           = tl (map (call_key env cfg s0) (butlast cs)) @ [call_key env cfg s0 (last cs)] \<and>
         same_setup s0 (run_calls env cfg cs s0)"
proof -
  from len have ne: "cs \<noteq> []" by auto
  then have cs: "cs = butlast cs @ [last cs]" by simp
  let ?b = "butlast cs" and ?l = "last cs"
  let ?s = "run_calls env cfg ?b s0"
  from dist cs have db: "distinct (map (call_key env cfg s0) ?b)"
    and nl: "call_key env cfg s0 ?l \<notin> set (map (call_key env cfg s0) ?b)"
    by (metis distinct_append map_append, metis (no_types, lifting) disjoint_insert(1) distinct_append list.simps(15,9) map_append)
  have ab: "\<forall>c\<in>set ?b. call_answered env cfg s0 c"
    using ans by (meson in_set_butlastD)
  have lb: "length ?b = maxCacheSize s0" using len by simp
  from run_calls_fill[of s0 env cfg ?b] db ab lb empty
  have keys: "map fst (cache ?s) = map (call_key env cfg s0) ?b" and same: "same_setup s0 ?s"
    by simp_all
  have none: "map_get (cache ?s) (call_key env cfg ?s ?l) = None"
    using nl keys by (simp add: call_key_same[OF same] map_get_None_iff del: set_map)
  have al: "call_answered env cfg ?s ?l"
    using ans ne by (simp add: call_answered_same[OF same])
  have d: "distinct (map fst (cache ?s))" using keys db by simp
  note pm = perform_miss_answered[OF none al d]
  have full: "length (cache ?s) \<ge> maxCacheSize ?s"
    using arg_cong[OF keys, of length] lb same by (simp add: same_setup_def)
  have run: "run_calls env cfg cs s0 = snd (perform env cfg ?l ?s)"
    by (subst cs) (simp add: run_calls_append)
  from pm(1) full keys have "map fst (cache (snd (perform env cfg ?l ?s)))
      = tl (map (call_key env cfg s0) ?b) @ [call_key env cfg s0 ?l]"
    by (simp add: call_key_same[OF same])
  with run pm(4) same show ?thesis
    by (auto intro: same_setup_trans)
qed


lemma set_tl_subset: "x \<in> set (tl xs) \<Longrightarrow> x \<in> set xs"
  by (cases xs) auto

lemma generate_miss_cache:
  assumes none: "map_get (cache s) (getCacheKey env cfg s text v) = None"
    and dist: "distinct (map fst (cache s))"
  shows "distinct (map fst (cache (snd (generate env cfg v text now s))))"
proof -
  let ?s1 = "s\<lparr>totalEmbeddings := totalEmbeddings s + 1, cacheMisses := cacheMisses s + 1\<rparr>"
  let ?k = "getCacheKey env cfg s text v"
  obtain r s2 where br: "backend_result env cfg v text ?s1 = (r, s2)" by force
  note st = backend_result_state[OF br]
  show ?thesis
  proof (cases r)
    case (Inl err)
    with br st dist show ?thesis by (simp add: generate_miss[OF none])
  next
    case (Inr e)
    from none st have k: "?k \<notin> set (map fst (cache s2))" by (simp add: map_get_None_iff)
    from dist st have d: "distinct (map fst (cache s2))" by simp
    have "distinct (map fst (cache (addToCache ?k e now s2)))"
      unfolding addToCache_keys[OF k d] using k d
      by (auto simp: distinct_tl simp del: set_map dest: set_tl_subset)
    with Inr br show ?thesis by (simp add: generate_miss[OF none])
  qed
qed

lemma generate_same_setup: "same_setup s (snd (generate env cfg v text now s))"
proof (cases "map_get (cache s) (getCacheKey env cfg s text v)")
  case (Some c)
  then show ?thesis by (simp add: generate_hit same_setup_def)
next
  case None
  let ?s1 = "s\<lparr>totalEmbeddings := totalEmbeddings s + 1, cacheMisses := cacheMisses s + 1\<rparr>"
  obtain r s2 where br: "backend_result env cfg v text ?s1 = (r, s2)" by force
  note st = backend_result_state[OF br]
  show ?thesis
  proof (cases r)
    case (Inl err)
    with br st show ?thesis by (simp add: generate_miss[OF None] same_setup_def)
  next
    case (Inr e)
    with br st addToCache_fields[of "getCacheKey env cfg s text v" e now s2] show ?thesis
      by (simp add: generate_miss[OF None] same_setup_def)
  qed
qed

lemma perform_same_setup: "same_setup s (snd (perform env cfg c s))"
  using generate_same_setup[of s env cfg]
  by (cases c) (simp_all add: generateEmbedding_def generateLargeEmbedding_def)

lemma run_calls_same_setup: "same_setup s (run_calls env cfg cs s)"
proof (induction cs arbitrary: s)
  case Nil
  show ?case by (simp add: same_setup_refl)
next
  case (Cons c cs)
  from perform_same_setup[of s env cfg c] Cons[of "snd (perform env cfg c s)"]
  show ?case by (auto intro: same_setup_trans)
qed

lemma perform_distinct:
  assumes "distinct (map fst (cache s))"
  shows "distinct (map fst (cache (snd (perform env cfg c s))))"
proof (cases "map_get (cache s) (call_key env cfg s c)")
  case None
  with assms generate_miss_cache[of s env cfg _ _ _] show ?thesis
    by (cases c) (simp_all add: generateEmbedding_def generateLargeEmbedding_def)
next
  case (Some e)
  from perform_hit(1)[OF Some assms] assms show ?thesis by simp
qed

lemma run_calls_distinct:
  "distinct (map fst (cache s)) \<Longrightarrow> distinct (map fst (cache (run_calls env cfg cs s)))"
  by (induction cs arbitrary: s) (simp_all add: perform_distinct)

text \<open>
  Claim C8, amended: each of the \<open>M + 1\<close> calls is answered by the embedding backend. The
  entries of the cache are in the order of their last use, the least recently used first.
  Starting from an empty cache of capacity \<open>M\<close> (at least 1: with \<open>M = 0\<close> the keys \<open>k\<^sub>1\<close> and
  \<open>k\<^sub>M\<^sub>+\<^sub>1\<close> are one key), after \<open>M + 1\<close> calls with distinct keys that the backend answers, a
  request for the first key is a miss and a request for the last key is a hit. At every state
  reached from the empty cache, a hit moves the entry to the most recently used end, and an
  answered miss at capacity removes the least recently used entry and appends the new one.
\<close>

theorem lru_eviction:
  assumes M: "0 < maxCacheSize s0"
    and empty: "cache s0 = []"
    and len: "length cs = maxCacheSize s0 + 1"
    and dist: "distinct (map (call_key env cfg s0) cs)"
    and ans: "\<forall>c\<in>set cs. call_answered env cfg s0 c"
  shows "cacheMisses (snd (perform env cfg (hd cs) (run_calls env cfg cs s0)))
           = cacheMisses (run_calls env cfg cs s0) + 1 \<and>
         cacheHits (snd (perform env cfg (last cs) (run_calls env cfg cs s0)))
           = cacheHits (run_calls env cfg cs s0) + 1 \<and>
         (map_get (cache (run_calls env cfg pre s0)) (call_key env cfg s0 c) \<noteq> None \<longrightarrow>
            map fst (cache (snd (perform env cfg c (run_calls env cfg pre s0))))
              = filter (\<lambda>k. k \<noteq> call_key env cfg s0 c) (map fst (cache (run_calls env cfg pre s0)))
                @ [call_key env cfg s0 c]) \<and>
         (map_get (cache (run_calls env cfg pre' s0)) (call_key env cfg s0 c') = None \<and>
          call_answered env cfg s0 c' \<and>
          maxCacheSize s0 \<le> length (cache (run_calls env cfg pre' s0)) \<longrightarrow>
            map fst (cache (snd (perform env cfg c' (run_calls env cfg pre' s0))))
              = tl (map fst (cache (run_calls env cfg pre' s0))) @ [call_key env cfg s0 c'])"
proof (intro conjI impI)
  let ?s = "run_calls env cfg cs s0"
  let ?key = "call_key env cfg s0"
  from lru_first_evicted[OF M empty len dist ans]
  have keys: "map fst (cache ?s) = tl (map ?key (butlast cs)) @ [?key (last cs)]"
    and same: "same_setup s0 ?s" by simp_all
  from empty have d0: "distinct (map fst (cache s0))" by simp
  have ds: "distinct (map fst (cache ?s))" using d0 by (rule run_calls_distinct)
  from len M obtain c1 mid cl where cs: "cs = c1 # mid @ [cl]"
    by (metis Suc_eq_plus1 append_butlast_last_id length_0_conv length_Suc_conv less_numeral_extra(3) list.sel(2) list.size(3) nat.inject not_Cons_self2 butlast.simps(2) neq_Nil_conv length_butlast diff_Suc_1)
  have hd: "hd cs = c1" and last: "last cs = cl" and bl: "butlast cs = c1 # mid"
    using cs by (simp_all add: butlast_append)
  from dist cs have k1: "?key c1 \<notin> set (map ?key mid)" "?key c1 \<noteq> ?key cl"
    by auto
  have none: "map_get (cache ?s) (call_key env cfg ?s (hd cs)) = None"
    using keys k1 by (simp add: call_key_same[OF same] map_get_None_iff hd last bl del: set_map)
  have "hd cs \<in> set cs" using cs by simp
  with ans have "call_answered env cfg s0 (hd cs)" by blast
  then have a1: "call_answered env cfg ?s (hd cs)"
    by (simp add: call_answered_same[OF same])
  from perform_miss_answered(3)[OF none a1 ds]
  show "cacheMisses (snd (perform env cfg (hd cs) ?s)) = cacheMisses ?s + 1" .
  have "?key cl \<in> set (map fst (cache ?s))"
    using keys by (simp add: last)
  then obtain e where some: "map_get (cache ?s) (call_key env cfg ?s (last cs)) = Some e"
    using map_get_None_iff[of "cache ?s" "?key cl"]
    by (auto simp: call_key_same[OF same] last)
  from perform_hit(2)[OF some ds]
  show "cacheHits (snd (perform env cfg (last cs) ?s)) = cacheHits ?s + 1" .
next
  let ?p = "run_calls env cfg pre s0"
  assume "map_get (cache ?p) (call_key env cfg s0 c) \<noteq> None"
  moreover have sp: "same_setup s0 ?p"
    by (rule run_calls_same_setup)
  ultimately obtain e where some: "map_get (cache ?p) (call_key env cfg ?p c) = Some e"
    by (auto simp: call_key_same[OF sp])
  from empty have "distinct (map fst (cache s0))" by simp
  then have dp: "distinct (map fst (cache ?p))" by (rule run_calls_distinct)
  from perform_hit(1)[OF some dp]
  show "map fst (cache (snd (perform env cfg c ?p)))
          = filter (\<lambda>k. k \<noteq> call_key env cfg s0 c) (map fst (cache ?p)) @ [call_key env cfg s0 c]"
    by (simp add: call_key_same[OF sp])
next
  let ?p = "run_calls env cfg pre' s0"
  assume a: "map_get (cache ?p) (call_key env cfg s0 c') = None \<and>
          call_answered env cfg s0 c' \<and> maxCacheSize s0 \<le> length (cache ?p)"
  have sp: "same_setup s0 ?p"
    by (rule run_calls_same_setup)
  from empty have "distinct (map fst (cache s0))" by simp
  then have dp: "distinct (map fst (cache ?p))" by (rule run_calls_distinct)
  from a have none: "map_get (cache ?p) (call_key env cfg ?p c') = None"
    and ans': "call_answered env cfg ?p c'"
    by (simp_all add: call_key_same[OF sp] call_answered_same[OF sp])
  from perform_miss_answered(1)[OF none ans' dp] a sp
  show "map fst (cache (snd (perform env cfg c' ?p)))
          = tl (map fst (cache ?p)) @ [call_key env cfg s0 c']"
    by (simp add: call_key_same[OF sp] same_setup_def)
qed

theorem lru_eviction_witness:
  "0 < maxCacheSize (service_of_capacity 2) \<and>
   cache (service_of_capacity 2) = [] \<and>
   length three_calls = maxCacheSize (service_of_capacity 2) + 1 \<and>
   distinct (map (call_key example_env example_config (service_of_capacity 2)) three_calls) \<and>
   list_all (call_answered example_env example_config (service_of_capacity 2)) three_calls \<and>
   cacheMisses (snd (perform example_env example_config (hd three_calls)
                  (run_calls example_env example_config three_calls (service_of_capacity 2))))
     = cacheMisses (run_calls example_env example_config three_calls (service_of_capacity 2)) + 1 \<and>
   cacheHits (snd (perform example_env example_config (last three_calls)
                  (run_calls example_env example_config three_calls (service_of_capacity 2))))
     = cacheHits (run_calls example_env example_config three_calls (service_of_capacity 2)) + 1 \<and>
   map_get (cache (run_calls example_env example_config three_calls (service_of_capacity 2)))
     (call_key example_env example_config (service_of_capacity 2) (GenerateEmbedding ''text-2'' 4)) \<noteq> None \<and>
   map fst (cache (snd (perform example_env example_config (GenerateEmbedding ''text-2'' 4)
                  (run_calls example_env example_config three_calls (service_of_capacity 2)))))
     = [''test-model3text-3'', ''test-model3text-2''] \<and>
   map_get (cache (run_calls example_env example_config (butlast three_calls) (service_of_capacity 2)))
     (call_key example_env example_config (service_of_capacity 2) (last three_calls)) = None \<and>
   maxCacheSize (service_of_capacity 2)
     \<le> length (cache (run_calls example_env example_config (butlast three_calls) (service_of_capacity 2))) \<and>
   map fst (cache (snd (perform example_env example_config (last three_calls)
                  (run_calls example_env example_config (butlast three_calls) (service_of_capacity 2)))))
     = [''test-model3text-2'', ''test-model3text-3'']"
proof -
  have h1: "0 < maxCacheSize (service_of_capacity 2)"
    and h2: "cache (service_of_capacity 2) = []"
    and h3: "length three_calls = maxCacheSize (service_of_capacity 2) + 1"
    and h4: "distinct (map (call_key example_env example_config (service_of_capacity 2)) three_calls)"
    and h5': "list_all (call_answered example_env example_config (service_of_capacity 2)) three_calls"
    by code_simp+
  from h5' have h5: "\<forall>c\<in>set three_calls. call_answered example_env example_config (service_of_capacity 2) c"
    by (simp add: list_all_iff)
  have b: "map_get (cache (run_calls example_env example_config three_calls (service_of_capacity 2)))
     (call_key example_env example_config (service_of_capacity 2) (GenerateEmbedding ''text-2'' 4)) \<noteq> None"
    by code_simp
  have c: "map_get (cache (run_calls example_env example_config (butlast three_calls) (service_of_capacity 2)))
     (call_key example_env example_config (service_of_capacity 2) (last three_calls)) = None \<and>
     call_answered example_env example_config (service_of_capacity 2) (last three_calls) \<and>
   maxCacheSize (service_of_capacity 2)
     \<le> length (cache (run_calls example_env example_config (butlast three_calls) (service_of_capacity 2)))"
    by code_simp
  have v1: "filter (\<lambda>k. k \<noteq> call_key example_env example_config (service_of_capacity 2) (GenerateEmbedding ''text-2'' 4))
              (map fst (cache (run_calls example_env example_config three_calls (service_of_capacity 2))))
            @ [call_key example_env example_config (service_of_capacity 2) (GenerateEmbedding ''text-2'' 4)]
            = [''test-model3text-3'', ''test-model3text-2'']"
    by code_simp
  have v2: "tl (map fst (cache (run_calls example_env example_config (butlast three_calls) (service_of_capacity 2))))
            @ [call_key example_env example_config (service_of_capacity 2) (last three_calls)]
            = [''test-model3text-2'', ''test-model3text-3'']"
    by code_simp
  note L = lru_eviction[OF h1 h2 h3 h4 h5, where pre = three_calls
      and c = "GenerateEmbedding ''text-2'' 4" and pre' = "butlast three_calls"
      and c' = "last three_calls"]
  from L have m: "cacheMisses (snd (perform example_env example_config (hd three_calls)
                  (run_calls example_env example_config three_calls (service_of_capacity 2))))
     = cacheMisses (run_calls example_env example_config three_calls (service_of_capacity 2)) + 1"
    and h: "cacheHits (snd (perform example_env example_config (last three_calls)
                  (run_calls example_env example_config three_calls (service_of_capacity 2))))
     = cacheHits (run_calls example_env example_config three_calls (service_of_capacity 2)) + 1"
    by blast+
  from L b have "map fst (cache (snd (perform example_env example_config (GenerateEmbedding ''text-2'' 4)
                  (run_calls example_env example_config three_calls (service_of_capacity 2)))))
     = filter (\<lambda>k. k \<noteq> call_key example_env example_config (service_of_capacity 2) (GenerateEmbedding ''text-2'' 4))
              (map fst (cache (run_calls example_env example_config three_calls (service_of_capacity 2))))
            @ [call_key example_env example_config (service_of_capacity 2) (GenerateEmbedding ''text-2'' 4)]"
    by blast
  then have x: "map fst (cache (snd (perform example_env example_config (GenerateEmbedding ''text-2'' 4)
                  (run_calls example_env example_config three_calls (service_of_capacity 2)))))
     = [''test-model3text-3'', ''test-model3text-2'']"
    using v1 by (rule trans)
  from L c have "map fst (cache (snd (perform example_env example_config (last three_calls)
                  (run_calls example_env example_config (butlast three_calls) (service_of_capacity 2)))))
     = tl (map fst (cache (run_calls example_env example_config (butlast three_calls) (service_of_capacity 2))))
            @ [call_key example_env example_config (service_of_capacity 2) (last three_calls)]"
    by blast
  then have y: "map fst (cache (snd (perform example_env example_config (last three_calls)
                  (run_calls example_env example_config (butlast three_calls) (service_of_capacity 2)))))
     = [''test-model3text-2'', ''test-model3text-3'']"
    using v2 by (rule trans)
  from h1 h2 h3 h4 h5' m h b x c y show ?thesis by blast
qed

lemma perform_miss_unanswered:
  assumes "map_get (cache s) (call_key env cfg s c) = None"
    and "\<not> call_answered env cfg s c"
  shows "cache (snd (perform env cfg c s)) = cache s"
    and "cacheHits (snd (perform env cfg c s)) = cacheHits s"
    and "cacheMisses (snd (perform env cfg c s)) = cacheMisses s + 1"
proof -
  have g: "cache (snd (generate env cfg v t n s)) = cache s \<and>
           cacheHits (snd (generate env cfg v t n s)) = cacheHits s \<and>
           cacheMisses (snd (generate env cfg v t n s)) = cacheMisses s + 1"
    if none: "map_get (cache s) (getCacheKey env cfg s t v) = None"
      and un: "\<not> backend_answers env cfg s v t" for v t n
  proof -
    let ?s1 = "s\<lparr>totalEmbeddings := totalEmbeddings s + 1, cacheMisses := cacheMisses s + 1\<rparr>"
    obtain r s2 where br: "backend_result env cfg v t ?s1 = (r, s2)" by force
    note st = backend_result_state[OF br]
    from un br obtain err where "r = Inl err"
      unfolding backend_result_def backend_answers_def generateOpenAIEmbedding_def Let_def is_Inr_def
      by (auto split: if_splits sum.splits prod.splits)
    with br st show ?thesis by (simp add: generate_miss[OF none])
  qed
  from assms g show "cache (snd (perform env cfg c s)) = cache s"
    by (cases c) (simp_all add: generateEmbedding_def generateLargeEmbedding_def)
  from assms g show "cacheHits (snd (perform env cfg c s)) = cacheHits s"
    by (cases c) (simp_all add: generateEmbedding_def generateLargeEmbedding_def)
  from assms g show "cacheMisses (snd (perform env cfg c s)) = cacheMisses s + 1"
    by (cases c) (simp_all add: generateEmbedding_def generateLargeEmbedding_def)
qed

lemma flaky_key:
  "getCacheKey flaky_env example_config example_service t Small = key_prefix @ t"
  by (simp add: getCacheKey_def flaky_env_def example_env_def example_config_def example_service_def
      key_prefix_def del: string_of_nat.simps)

lemma flaky_answered:
  "backend_answers flaky_env example_config example_service Small t = (t \<noteq> failing_text)"
  by (simp add: backend_answers_def flaky_env_def example_env_def example_config_def is_Inr_def)

lemma in_set_mapI: "x \<in> set xs \<Longrightarrow> f x \<in> set (map f xs)"
  by simp

lemma text_of_inj: "inj text_of"
proof (rule injI)
  fix i j assume "text_of i = text_of j"
  then have "length (text_of i) = length (text_of j)" by simp
  then show "i = j" by (simp add: text_of_def)
qed

lemma text_of_not_failing: "text_of i \<noteq> failing_text" "failing_text \<noteq> text_of i"
  by (simp_all add: text_of_def failing_text_def)

lemma filling_keys:
  "map (call_key flaky_env example_config example_service) (filling_calls M)
     = map (\<lambda>i. key_prefix @ text_of i) [0..<M]"
  by (simp add: filling_calls_def flaky_key comp_def)

lemma filling_keys_distinct:
  "distinct (map (call_key flaky_env example_config example_service) (filling_calls M))"
  unfolding filling_keys
  by (rule distinct_map[THEN iffD2]) (auto intro!: inj_onI dest: injD[OF text_of_inj])

lemma failing_key_fresh:
  "call_key flaky_env example_config example_service (GenerateEmbedding failing_text n)
     \<notin> set (map (call_key flaky_env example_config example_service) (filling_calls M))"
  unfolding filling_keys by (auto simp: flaky_key text_of_not_failing)

lemma filling_answered:
  "\<forall>c\<in>set (filling_calls M). call_answered flaky_env example_config example_service c"
  by (auto simp: filling_calls_def flaky_answered text_of_not_failing)

lemma filled:
  assumes "M \<le> MAX_CACHE_SIZE"
  shows "map fst (cache (run_calls flaky_env example_config (filling_calls M) example_service))
           = map (call_key flaky_env example_config example_service) (filling_calls M)"
    and "same_setup example_service (run_calls flaky_env example_config (filling_calls M) example_service)"
proof -
  have c: "cache example_service = []" and m: "maxCacheSize example_service = MAX_CACHE_SIZE"
    by (simp_all add: example_service_def)
  have "map fst (cache (run_calls flaky_env example_config (filling_calls M) example_service))
          = map fst (cache example_service) @ map (call_key flaky_env example_config example_service) (filling_calls M) \<and>
        same_setup example_service (run_calls flaky_env example_config (filling_calls M) example_service)"
  proof (rule run_calls_fill)
    show "distinct (map fst (cache example_service))" by (simp add: c)
    show "distinct (map (call_key flaky_env example_config example_service) (filling_calls M))"
      by (rule filling_keys_distinct)
    show "set (map (call_key flaky_env example_config example_service) (filling_calls M))
            \<inter> set (map fst (cache example_service)) = {}" by (simp add: c)
    show "\<forall>c\<in>set (filling_calls M). call_answered flaky_env example_config example_service c"
      by (rule filling_answered)
    show "length (cache example_service) + length (filling_calls M) \<le> maxCacheSize example_service"
      using assms by (simp add: c m filling_calls_def)
  qed
  then show "map fst (cache (run_calls flaky_env example_config (filling_calls M) example_service))
           = map (call_key flaky_env example_config example_service) (filling_calls M)"
    and "same_setup example_service (run_calls flaky_env example_config (filling_calls M) example_service)"
    by (simp_all add: c)
qed

text \<open>
  The claim C8 as stated does not ask that the calls are answered. With the capacity of the
  constructor, when the first \<open>M\<close> calls are answered and the backend throws on the call of
  \<open>k\<^sub>M\<^sub>+\<^sub>1\<close>, nothing is inserted and nothing evicted by that call: the next request for \<open>k\<^sub>1\<close>
  is a hit and the next request for \<open>k\<^sub>M\<^sub>+\<^sub>1\<close> is a miss.
\<close>

theorem lru_unanswered_counterexample:
  "new_EmbeddingService example_config = Inr example_service \<and>
   cache example_service = [] \<and>
   length (last_unanswered_calls MAX_CACHE_SIZE) = maxCacheSize example_service + 1 \<and>
   distinct (map (call_key flaky_env example_config example_service) (last_unanswered_calls MAX_CACHE_SIZE)) \<and>
   list_all (call_answered flaky_env example_config example_service) (butlast (last_unanswered_calls MAX_CACHE_SIZE)) \<and>
   \<not> call_answered flaky_env example_config example_service (last (last_unanswered_calls MAX_CACHE_SIZE)) \<and>
   cacheHits (snd (perform flaky_env example_config (hd (last_unanswered_calls MAX_CACHE_SIZE))
                (run_calls flaky_env example_config (last_unanswered_calls MAX_CACHE_SIZE) example_service)))
     = cacheHits (run_calls flaky_env example_config (last_unanswered_calls MAX_CACHE_SIZE) example_service) + 1 \<and>
   cacheMisses (snd (perform flaky_env example_config (hd (last_unanswered_calls MAX_CACHE_SIZE))
                (run_calls flaky_env example_config (last_unanswered_calls MAX_CACHE_SIZE) example_service)))
     = cacheMisses (run_calls flaky_env example_config (last_unanswered_calls MAX_CACHE_SIZE) example_service) \<and>
   cacheMisses (snd (perform flaky_env example_config (last (last_unanswered_calls MAX_CACHE_SIZE))
                (run_calls flaky_env example_config (last_unanswered_calls MAX_CACHE_SIZE) example_service)))
     = cacheMisses (run_calls flaky_env example_config (last_unanswered_calls MAX_CACHE_SIZE) example_service) + 1 \<and>
   cacheHits (snd (perform flaky_env example_config (last (last_unanswered_calls MAX_CACHE_SIZE))
                (run_calls flaky_env example_config (last_unanswered_calls MAX_CACHE_SIZE) example_service)))
     = cacheHits (run_calls flaky_env example_config (last_unanswered_calls MAX_CACHE_SIZE) example_service)"
proof -
  let ?M = MAX_CACHE_SIZE
  let ?cs = "last_unanswered_calls ?M"
  let ?key = "call_key flaky_env example_config example_service"
  let ?f = "GenerateEmbedding failing_text ?M"
  let ?s1 = "run_calls flaky_env example_config (filling_calls ?M) example_service"
  let ?s2 = "run_calls flaky_env example_config ?cs example_service"
  have Mpos: "0 < ?M" by (simp add: MAX_CACHE_SIZE_def)
  have new: "new_EmbeddingService example_config = Inr example_service"
    by (simp add: new_EmbeddingService_def example_config_def example_service_def)
  have c0: "cache example_service = []" by (simp add: example_service_def)
  have len: "length ?cs = maxCacheSize example_service + 1"
    by (simp add: last_unanswered_calls_def filling_calls_def example_service_def)
  have dist: "distinct (map ?key ?cs)"
    using filling_keys_distinct[of ?M] failing_key_fresh[of ?M ?M]
    by (simp add: last_unanswered_calls_def)
  have bl: "butlast ?cs = filling_calls ?M" and la: "last ?cs = ?f"
    by (simp_all add: last_unanswered_calls_def)
  have hd: "hd ?cs = GenerateEmbedding (text_of 0) 0"
    using Mpos by (simp add: last_unanswered_calls_def filling_calls_def upt_conv_Cons)
  have ans: "list_all (call_answered flaky_env example_config example_service) (butlast ?cs)"
    using filling_answered[of ?M] by (simp add: bl list_all_iff)
  have un: "\<not> call_answered flaky_env example_config example_service (last ?cs)"
    unfolding la by (simp add: flaky_answered)
  note f = filled[OF order_refl]
  have d1: "distinct (map fst (cache ?s1))"
    unfolding f(1) by (rule filling_keys_distinct)
  have none1: "map_get (cache ?s1) (call_key flaky_env example_config ?s1 ?f) = None"
    unfolding call_key_same[OF f(2)] map_get_None_iff f(1) by (rule failing_key_fresh)
  have unf: "\<not> call_answered flaky_env example_config example_service ?f"
    by (simp add: flaky_answered)
  then have un1: "\<not> call_answered flaky_env example_config ?s1 ?f"
    unfolding call_answered_same[OF f(2)] .
  have s2: "?s2 = snd (perform flaky_env example_config ?f ?s1)"
    by (simp add: last_unanswered_calls_def run_calls_append)
  note pu = perform_miss_unanswered[OF none1 un1]
  have cache2: "cache ?s2 = cache ?s1" unfolding s2 by (rule pu(1))
  have same2: "same_setup example_service ?s2" by (rule run_calls_same_setup)
  have d2: "distinct (map fst (cache ?s2))" by (simp add: cache2 d1)
  have "hd ?cs \<in> set (filling_calls ?M)"
    using Mpos by (simp add: hd filling_calls_def upt_conv_Cons)
  then have "?key (hd ?cs) \<in> set (map fst (cache ?s2))"
    unfolding cache2 f(1) by (rule in_set_mapI)
  then have "map_get (cache ?s2) (call_key flaky_env example_config ?s2 (hd ?cs)) \<noteq> None"
    unfolding call_key_same[OF same2] map_get_None_iff by simp
  then obtain e where some: "map_get (cache ?s2) (call_key flaky_env example_config ?s2 (hd ?cs)) = Some e"
    by blast
  note ph = perform_hit[OF some d2]
  have none2: "map_get (cache ?s2) (call_key flaky_env example_config ?s2 (last ?cs)) = None"
    unfolding call_key_same[OF same2] la map_get_None_iff cache2 f(1) by (rule failing_key_fresh)
  have un2: "\<not> call_answered flaky_env example_config ?s2 (last ?cs)"
    unfolding call_answered_same[OF same2] la by (rule unf)
  note pm = perform_miss_unanswered[OF none2 un2]
  from new c0 len dist ans un ph(2) ph(3) pm(3) pm(2) show ?thesis by blast
qed

subsection \<open>Validation of a vector\<close>

text \<open>
  Claim C9, amended. For every array \<open>v\<close>, \<open>validateEmbedding\<close> holds exactly when the
  \<open>length\<close> of \<open>v\<close> is \<open>SMALL_DIMENSIONS\<close> and every element that \<open>v\<close> holds is a number other
  than \<open>NaN\<close>: a finite real, \<open>Infinity\<close> or \<open>-Infinity\<close>. The holes of a sparse array count
  in its length and are not examined.
\<close>

theorem validateEmbedding_accepts:
  "validateEmbedding svc (JArray xs) =
     (length xs = SMALL_DIMENSIONS svc \<and>
      list_all (\<lambda>x. x = None \<or> (\<exists>n. x = Some n \<and>
                       (is_finite_number n \<or> n = JNumber PosInfinity \<or> n = JNumber NegInfinity))) xs)"
proof -
  have "numeric_not_NaN n = (is_finite_number n \<or> n = JNumber PosInfinity \<or> n = JNumber NegInfinity)" for n
  proof (cases n)
    case (JNumber d)
    then show ?thesis by (cases d) (simp_all add: isNaN_def)
  qed simp_all
  then have "(case x of None \<Rightarrow> True | Some n \<Rightarrow> numeric_not_NaN n) =
         (x = None \<or> (\<exists>n. x = Some n \<and>
            (is_finite_number n \<or> n = JNumber PosInfinity \<or> n = JNumber NegInfinity)))" for x
    by (cases x) simp_all
  then show ?thesis
    by (auto simp: validateEmbedding_def every_def)
qed

text \<open>
  The claim C9 as stated asks for finite components; a vector of the right length that
  holds \<open>Infinity\<close> and \<open>-Infinity\<close> is accepted.
\<close>

theorem validateEmbedding_infinity_counterexample:
  "validateEmbedding example_service infinite_vector \<and>
   infinite_vector = JArray [Some (JNumber (Finite 0)), Some (JNumber PosInfinity), Some (JNumber NegInfinity)] \<and>
   length [Some (JNumber (Finite 0)), Some (JNumber PosInfinity), Some (JNumber NegInfinity)]
     = SMALL_DIMENSIONS example_service \<and>
   \<not> is_finite_number (JNumber PosInfinity) \<and> \<not> is_finite_number (JNumber NegInfinity)"
  by (simp add: validateEmbedding_def every_def infinite_vector_def example_service_def isNaN_def)

text \<open>Accepted: the vector with infinities, \<open>new Array(3)\<close> and \<open>[0, , 2]\<close>. Rejected: a
  vector with \<open>NaN\<close>, one with an element \<open>undefined\<close>, and one of another length.\<close>

theorem validateEmbedding_accepts_witness:
  "validateEmbedding example_service infinite_vector \<and>
   validateEmbedding example_service empty_slots \<and>
   validateEmbedding example_service sparse_vector \<and>
   \<not> validateEmbedding example_service
       (JArray [Some (JNumber (Finite 0)), Some (JNumber NaN), Some (JNumber (Finite 1))]) \<and>
   \<not> validateEmbedding example_service
       (JArray [Some (JNumber (Finite 0)), Some JUndefined, Some (JNumber (Finite 1))]) \<and>
   \<not> validateEmbedding example_service (JArray [Some (JNumber (Finite 0))])"
  using validateEmbedding_accepts[of example_service
      "[Some (JNumber (Finite 0)), Some (JNumber PosInfinity), Some (JNumber NegInfinity)]"]
    validateEmbedding_accepts[of example_service "[None, None, None]"]
    validateEmbedding_accepts[of example_service "[Some (JNumber (Finite 0)), None, Some (JNumber (Finite 2))]"]
    validateEmbedding_accepts[of example_service
      "[Some (JNumber (Finite 0)), Some (JNumber NaN), Some (JNumber (Finite 1))]"]
    validateEmbedding_accepts[of example_service
      "[Some (JNumber (Finite 0)), Some JUndefined, Some (JNumber (Finite 1))]"]
    validateEmbedding_accepts[of example_service "[Some (JNumber (Finite 0))]"]
  by (simp add: infinite_vector_def empty_slots_def sparse_vector_def example_service_def)

subsection \<open>Maps in insertion order\<close>

lemma map_get_map_set: "map_get (map_set m k v) k' = (if k' = k then Some v else map_get m k')"
  by (induction m) auto

lemma keys_map_set: "map fst (map_set m k v) = (if k \<in> set (map fst m) then map fst m else map fst m @ [k])"
  by (induction m) (force split: if_splits)+

lemma keys_map_set_set: "set (map fst (map_set m k v)) = insert k (set (map fst m))"
  unfolding keys_map_set by auto

lemma distinct_map_set: "distinct (map fst m) \<Longrightarrow> distinct (map fst (map_set m k v))"
  unfolding keys_map_set by auto

lemma map_get_in_keys: "map_get m k \<noteq> None \<longleftrightarrow> k \<in> set (map fst m)"
  using map_get_None_iff[of m k] by auto

subsection \<open>Rounding to a double\<close>

lemma rhe_of_int: "round_half_even (of_int m) = m"
  by (simp add: round_half_even_def)

lemma rhe_ge: "of_int a \<le> t \<Longrightarrow> a \<le> round_half_even t"
proof -
  assume "of_int a \<le> t"
  then have "a \<le> \<lfloor>t\<rfloor>" by (simp add: le_floor_iff)
  then show ?thesis by (auto simp: round_half_even_def Let_def)
qed

lemma rhe_le: "t \<le> of_int b \<Longrightarrow> round_half_even t \<le> b"
proof -
  assume a: "t \<le> of_int b"
  then have f: "\<lfloor>t\<rfloor> \<le> b" by (simp add: floor_le_iff)
  show ?thesis
  proof (cases "\<lfloor>t\<rfloor> = b")
    case True
    with a have "t = of_int b" by linarith
    then show ?thesis by (simp add: rhe_of_int)
  next
    case False
    with f have "\<lfloor>t\<rfloor> + 1 \<le> b" by simp
    then show ?thesis using f by (auto simp: round_half_even_def Let_def)
  qed
qed

lemma two_powi_int: "0 \<le> n \<Longrightarrow> (2::rat) powi n = of_int (2 ^ nat n)"
  by (simp add: power_int_def)

lemma floor_log2_bounds:
  assumes "0 < x"
  shows "2 powi (floor_log2 x) \<le> x" and "x < 2 powi (floor_log2 x + 1)"
proof -
  obtain p q where pq: "quotient_of x = (p, q)" by force
  then have q: "0 < q" and x: "x = of_int p / of_int q"
    using quotient_of_denom_pos[OF pq] quotient_of_div[OF pq] by simp_all
  from assms q x have p: "0 < p" by (simp add: zero_less_divide_iff)
  let ?e = "bitlen p - bitlen q"
  have bp: "0 < bitlen p" and bq: "0 < bitlen q"
    using p q bitlen_bounds[of p] bitlen_bounds[of q] bitlen_nonneg[of p] bitlen_nonneg[of q]
    by (auto simp: bitlen_eq_zero_iff order_less_le)
  from bitlen_bounds[OF p] have "2 ^ nat (bitlen p - 1) \<le> p" "p < 2 ^ nat (bitlen p)" by simp_all
  then have "(of_int (2 ^ nat (bitlen p - 1)) :: rat) \<le> of_int p" "(of_int p :: rat) < of_int (2 ^ nat (bitlen p))"
    by (simp_all only: of_int_le_iff of_int_less_iff)
  then have p1: "(2::rat) powi (bitlen p - 1) \<le> of_int p" and p2: "of_int p < (2::rat) powi (bitlen p)"
    using bp by (simp_all add: two_powi_int)
  from bitlen_bounds[OF q] have "2 ^ nat (bitlen q - 1) \<le> q" "q < 2 ^ nat (bitlen q)" by simp_all
  then have "(of_int (2 ^ nat (bitlen q - 1)) :: rat) \<le> of_int q" "(of_int q :: rat) < of_int (2 ^ nat (bitlen q))"
    by (simp_all only: of_int_le_iff of_int_less_iff)
  then have q1: "(2::rat) powi (bitlen q - 1) \<le> of_int q" and q2: "of_int q < (2::rat) powi (bitlen q)"
    using bq by (simp_all add: two_powi_int)
  have qpos: "(0::rat) < of_int q" and ppos: "(0::rat) < of_int p" using p q by simp_all
  have pw: "(0::rat) < 2 powi n" for n by (simp add: zero_less_power_int)
  have lower: "(2::rat) powi (?e - 1) \<le> x"
  proof -
    have "(2::rat) powi (?e - 1) = 2 powi (bitlen p - 1) / 2 powi (bitlen q)"
      using power_int_diff[of "2::rat" "bitlen p - 1" "bitlen q"] by (simp add: algebra_simps)
    also have "\<dots> \<le> of_int p / 2 powi (bitlen q)"
      using p1 pw by (simp add: divide_right_mono)
    also have "\<dots> \<le> of_int p / of_int q"
      using q2 qpos ppos by (simp add: frac_le)
    finally show ?thesis using x by simp
  qed
  have upper: "x < (2::rat) powi (?e + 1)"
  proof -
    have "x = of_int p / of_int q" by (rule x)
    also have "\<dots> < 2 powi (bitlen p) / of_int q"
      using p2 qpos by (simp add: divide_strict_right_mono)
    also have "\<dots> \<le> 2 powi (bitlen p) / 2 powi (bitlen q - 1)"
      using q1 pw[of "bitlen q - 1"] pw[of "bitlen p"] by (simp add: frac_le)
    also have "\<dots> = 2 powi (?e + 1)"
      using power_int_diff[of "2::rat" "bitlen p" "bitlen q - 1"] by (simp add: algebra_simps)
    finally show ?thesis .
  qed
  have fl: "floor_log2 x = (if 2 powi ?e \<le> x then ?e else ?e - 1)"
    by (simp add: floor_log2_def pq Let_def)
  show "2 powi (floor_log2 x) \<le> x"
    using lower by (simp add: fl)
  show "x < 2 powi (floor_log2 x + 1)"
    using upper by (auto simp: fl not_le)
qed

lemma floor_log2_unique:
  assumes "2 powi e \<le> x" "x < 2 powi (e + 1)"
  shows "floor_log2 x = e"
proof -
  have "(0::rat) < 2 powi e" by (simp add: zero_less_power_int)
  with assms have x: "0 < x" by linarith
  note b = floor_log2_bounds[OF x]
  from b(1) assms(2) have "(2::rat) powi (floor_log2 x) < 2 powi (e + 1)" by linarith
  then have "floor_log2 x < e + 1"
    using power_int_increasing[of "e + 1" "floor_log2 x" "2::rat"] by (cases "floor_log2 x < e + 1") auto
  moreover from b(2) assms(1) have "(2::rat) powi e < 2 powi (floor_log2 x + 1)" by linarith
  then have "e < floor_log2 x + 1"
    using power_int_increasing[of "floor_log2 x + 1" e "2::rat"] by (cases "e < floor_log2 x + 1") auto
  ultimately show ?thesis by simp
qed

lemma pw_pos: "(0::rat) < 2 powi n"
  by (simp add: zero_less_power_int)

lemma double_round_pos_unfold:
  "x \<noteq> 0 \<Longrightarrow> double_round x =
     of_int (round_half_even (x / 2 powi (max (floor_log2 \<bar>x\<bar>) (- 1022) - 52)))
       * 2 powi (max (floor_log2 \<bar>x\<bar>) (- 1022) - 52)"
  by (simp add: double_round_def Let_def)

lemma double_round_grid: "on_grid (double_round x)"
proof (cases "x = 0")
  case True
  then show ?thesis by (auto simp: double_round_def on_grid_def intro: exI[of _ 0])
next
  case False
  let ?e = "max (floor_log2 \<bar>x\<bar>) (- 1022)"
  let ?m = "round_half_even (x / 2 powi (?e - 52))"
  have "0 \<le> ?e - 52 + 1074" by simp
  then have "(2::rat) powi (?e - 52 + 1074) = of_int (2 ^ nat (?e - 52 + 1074))"
    by (rule two_powi_int)
  moreover have "(2::rat) powi (?e - 52) = 2 powi (?e - 52 + 1074) * 2 powi (- 1074)"
    using power_int_add[of "2::rat" "?e - 52 + 1074" "- 1074"] by simp
  ultimately have "double_round x = of_int (?m * 2 ^ nat (?e - 52 + 1074)) * 2 powi (- 1074)"
    using False by (simp add: double_round_pos_unfold)
  then show ?thesis unfolding on_grid_def by blast
qed

lemma on_grid_diff: "on_grid a \<Longrightarrow> on_grid b \<Longrightarrow> on_grid (a - b)"
proof -
  assume "on_grid a" "on_grid b"
  then obtain k l :: int where "a = of_int k * 2 powi (- 1074)" "b = of_int l * 2 powi (- 1074)"
    unfolding on_grid_def by blast
  then have "a - b = of_int (k - l) * 2 powi (- 1074)" by (simp add: algebra_simps)
  then show ?thesis unfolding on_grid_def by blast
qed

lemma double_round_nonneg: "0 \<le> x \<Longrightarrow> 0 \<le> double_round x"
proof (cases "x = 0")
  case True
  then show ?thesis by (simp add: double_round_def)
next
  case False
  assume "0 \<le> x"
  then have "of_int 0 \<le> x / 2 powi (max (floor_log2 \<bar>x\<bar>) (- 1022) - 52)"
    using pw_pos by simp
  from rhe_ge[OF this] show ?thesis
    using False pw_pos by (simp add: double_round_pos_unfold)
qed

lemma double_round_grid_pos:
  assumes "on_grid x" "0 < x"
  shows "0 < double_round x"
proof -
  from assms obtain k :: int where k: "x = of_int k * 2 powi (- 1074)"
    unfolding on_grid_def by blast
  with assms(2) have "0 < k" using pw_pos[of "- 1074"] by (simp add: zero_less_mult_iff)
  then have "(1::rat) \<le> of_int k" by simp
  then have g: "(2::rat) powi (- 1074) \<le> x"
    using k pw_pos[of "- 1074"] by (simp add: mult_le_cancel_right1)
  let ?e = "max (floor_log2 \<bar>x\<bar>) (- 1022)"
  have q: "(2::rat) powi (?e - 52) \<le> x"
  proof (cases "floor_log2 \<bar>x\<bar> \<le> - 1022")
    case True
    then have "?e - 52 = - 1074" by simp
    with g show ?thesis by simp
  next
    case False
    then have "?e = floor_log2 x" using assms(2) by simp
    moreover have "(2::rat) powi (floor_log2 x - 52) \<le> 2 powi (floor_log2 x)"
      by (rule power_int_increasing) simp_all
    ultimately show ?thesis using floor_log2_bounds(1)[OF assms(2)] by simp
  qed
  then have "of_int 1 \<le> x / 2 powi (?e - 52)"
    using pw_pos[of "?e - 52"] by (simp add: le_divide_eq)
  from rhe_ge[OF this] have "0 < round_half_even (x / 2 powi (?e - 52))" by simp
  then show ?thesis
    using assms(2) pw_pos[of "?e - 52"] by (simp add: double_round_pos_unfold zero_less_mult_iff)
qed

lemma double_round_nonpos: "x \<le> 0 \<Longrightarrow> double_round x \<le> 0"
proof (cases "x = 0")
  case True
  then show ?thesis by (simp add: double_round_def)
next
  case False
  assume "x \<le> 0"
  then have "x / 2 powi (max (floor_log2 \<bar>x\<bar>) (- 1022) - 52) \<le> of_int 0"
    using pw_pos by (simp add: divide_le_0_iff)
  from rhe_le[OF this] show ?thesis
    using False pw_pos by (simp add: double_round_pos_unfold mult_le_0_iff)
qed

text \<open>The sign of a rounded difference of two doubles is the sign of the difference.\<close>

lemma js_sub_le_0_iff:
  assumes "on_grid a" "on_grid b"
  shows "js_sub b a \<le> 0 \<longleftrightarrow> b \<le> a"
proof (cases "b \<le> a")
  case True
  then show ?thesis using double_round_nonpos[of "b - a"] by (simp add: js_sub_def)
next
  case False
  then have "0 < b - a" by simp
  from double_round_grid_pos[OF on_grid_diff[OF assms(2,1)] this] False
  show ?thesis by (simp add: js_sub_def)
qed

lemma two_powi_add: "(2::rat) powi (a + b) = 2 powi a * 2 powi b"
  by (rule power_int_add) simp

lemma two_powi_less_iff: "(2::rat) powi a < 2 powi b \<longleftrightarrow> a < b"
proof
  assume "(2::rat) powi a < 2 powi b"
  then show "a < b"
    using power_int_increasing[of b a "2::rat"] by (cases "a < b") auto
next
  assume "a < b"
  then show "(2::rat) powi a < 2 powi b"
    by (rule power_int_strict_increasing) simp
qed

lemma double_round_idem:
  assumes "0 < x"
  shows "double_round (double_round x) = double_round x"
proof -
  define e where "e = floor_log2 x"
  define e' where "e' = max e (- 1022)"
  define q :: rat where "q = 2 powi (e' - 52)"
  define m where "m = round_half_even (x / q)"
  define y where "y = of_int m * q"
  have q: "0 < q" unfolding q_def by (rule pw_pos)
  have y: "double_round x = y"
    using assms by (simp add: double_round_pos_unfold y_def m_def q_def e'_def e_def)
  have L: "2 powi e \<le> x" and U: "x < 2 powi (e + 1)"
    unfolding e_def by (rule floor_log2_bounds[OF assms])+
  have m0: "0 \<le> m"
  proof -
    have "of_int 0 \<le> x / q" using assms q by simp
    from rhe_ge[OF this] show ?thesis unfolding m_def .
  qed
  have step: "double_round y = y" if "0 < m" "max (floor_log2 y) (- 1022) = e'"
  proof -
    have ypos: "0 < y" using that(1) q by (simp add: y_def zero_less_mult_iff)
    have "y / q = of_int m" using q by (simp add: y_def)
    then have "round_half_even (y / 2 powi (e' - 52)) = m"
      by (simp add: q_def rhe_of_int)
    then show ?thesis
      using ypos that(2) by (simp add: double_round_pos_unfold) (simp add: y_def q_def)
  qed
  show ?thesis
  proof (cases "m = 0")
    case True
    then have "y = 0" by (simp add: y_def)
    then show ?thesis unfolding y by (simp add: double_round_def)
  next
    case False
    with m0 have mpos: "0 < m" by simp
    then have ypos: "0 < y" using q by (simp add: y_def zero_less_mult_iff)
    show ?thesis
    proof (cases "e < - 1022")
      case True
      then have e': "e' = - 1022" by (simp add: e'_def)
      then have qv: "q = 2 powi (- 1074)" by (simp add: q_def)
      have "(2::rat) powi (e + 1) \<le> 2 powi (- 1022)"
        by (rule power_int_increasing) (use True in simp_all)
      with U have "x < 2 powi (- 1022)" by linarith
      also have "(2::rat) powi (- 1022) = 2 powi 52 * 2 powi (- 1074)"
        using two_powi_add[of 52 "- 1074"] by simp
      finally have "x < of_int (2 ^ 52) * q" by (simp add: qv)
      then have "x / q \<le> of_int (2 ^ 52)" using q by (simp add: divide_le_eq)
      from rhe_le[OF this] have "m \<le> 2 ^ 52" unfolding m_def .
      then have "(of_int m :: rat) \<le> of_int (2 ^ 52)" by (simp only: of_int_le_iff)
      then have "y \<le> of_int (2 ^ 52) * q" using q by (simp add: y_def)
      also have "\<dots> = 2 powi (- 1022)"
        using two_powi_add[of 52 "- 1074"] by (simp add: qv)
      also have "\<dots> < 2 powi (- 1021)" by (simp add: two_powi_less_iff)
      finally have "y < 2 powi (- 1021)" .
      with floor_log2_bounds(1)[OF ypos] have "(2::rat) powi (floor_log2 y) < 2 powi (- 1021)"
        by linarith
      then have "floor_log2 y < - 1021" by (simp only: two_powi_less_iff)
      then have "max (floor_log2 y) (- 1022) = e'" by (simp add: e')
      from step[OF mpos this] show ?thesis by (simp add: y)
    next
      case False
      then have e': "e' = e" by (simp add: e'_def)
      have qe: "2 powi e = of_int (2 ^ 52) * q"
        using two_powi_add[of 52 "e - 52"] by (simp add: q_def e')
      have qe1: "2 powi (e + 1) = of_int (2 ^ 53) * q"
        using two_powi_add[of 53 "e - 52"] by (simp add: q_def e' algebra_simps)
      from L qe have "of_int (2 ^ 52) \<le> x / q" using q by (simp add: le_divide_eq)
      from rhe_ge[OF this] have ml: "2 ^ 52 \<le> m" unfolding m_def .
      from U qe1 have "x / q \<le> of_int (2 ^ 53)" using q by (simp add: divide_le_eq)
      from rhe_le[OF this] have mu: "m \<le> 2 ^ 53" unfolding m_def .
      from ml have "(of_int (2 ^ 52) :: rat) \<le> of_int m" by (simp only: of_int_le_iff)
      then have yl: "2 powi e \<le> y" using q by (simp add: y_def qe)
      show ?thesis
      proof (cases "m = 2 ^ 53")
        case True
        then have yv: "y = 2 powi (e + 1)" by (simp add: y_def qe1)
        have "(2::rat) powi (e + 1) < 2 powi (e + 1 + 1)" by (simp add: two_powi_less_iff)
        with yv have "floor_log2 y = e + 1"
          by (intro floor_log2_unique) simp_all
        then have mx: "max (floor_log2 y) (- 1022) = e + 1" using False by simp
        have q2: "(2::rat) powi (e - 51) = 2 * q"
          using two_powi_add[of 1 "e - 52"] by (simp add: q_def e' algebra_simps)
        have "y / (2 * q) = of_int (2 ^ 52)" using q by (simp add: yv qe1)
        then have "round_half_even (y / (2 * q)) = 2 ^ 52"
          by (simp only: rhe_of_int)
        then have "double_round y = of_int (2 ^ 52) * (2 * q)"
          using ypos by (simp add: double_round_pos_unfold mx q2)
        also have "\<dots> = y" by (simp add: yv qe1)
        finally show ?thesis by (simp add: y)
      next
        case False
        with mu have "m < 2 ^ 53" by simp
        then have "(of_int m :: rat) < of_int (2 ^ 53)" by (simp only: of_int_less_iff)
        then have "y < 2 powi (e + 1)" using q by (simp add: y_def qe1)
        with yl have "floor_log2 y = e" by (intro floor_log2_unique)
        then have "max (floor_log2 y) (- 1022) = e'" using \<open>\<not> e < - 1022\<close> by (simp add: e')
        from step[OF mpos this] show ?thesis by (simp add: y)
      qed
    qed
  qed
qed

lemma js_add_0_left: "0 < x \<Longrightarrow> js_add 0 (double_round x) = double_round x"
  by (simp add: js_add_def double_round_idem)

subsection \<open>Sorting by the comparator\<close>

lemma set_insert_by: "set (insert_by compareFn x ys) = insert x (set ys)"
  by (induction ys) auto

lemma set_array_sort: "set (array_sort compareFn xs) = set xs"
  by (induction xs) (simp_all add: array_sort_def set_insert_by)

lemma length_insert_by: "length (insert_by compareFn x ys) = Suc (length ys)"
  by (induction ys) auto

lemma length_array_sort: "length (array_sort compareFn xs) = length xs"
  by (induction xs) (simp_all add: array_sort_def length_insert_by)

text \<open>On doubles the comparator \<open>b[1] - a[1]\<close> orders by descending score, and the sort
  is the stable sort on that key.\<close>

lemma insert_by_insort:
  assumes "on_grid (snd x)" "\<forall>y\<in>set ys. on_grid (snd y)"
  shows "insert_by (\<lambda>a b. js_sub (snd b) (snd a)) x ys = insort_key (\<lambda>e. - snd e) x ys"
  using assms(2)
proof (induction ys)
  case Nil
  show ?case by simp
next
  case (Cons y ys)
  from Cons.prems have "on_grid (snd y)" by simp
  from js_sub_le_0_iff[OF assms(1) this] Cons show ?case by simp
qed

lemma sort_by_score_desc_sort_key:
  assumes "\<forall>e\<in>set xs. on_grid (snd e)"
  shows "sort_by_score_desc xs = sort_key (\<lambda>e. - snd e) xs"
  using assms
proof (induction xs)
  case Nil
  show ?case by (simp add: sort_by_score_desc_def array_sort_def)
next
  case (Cons x xs)
  then have ih: "array_sort (\<lambda>a b. js_sub (snd b) (snd a)) xs = sort_key (\<lambda>e. - snd e) xs"
    by (simp add: sort_by_score_desc_def)
  have "\<forall>y\<in>set (sort_key (\<lambda>e. - snd e) xs). on_grid (snd y)"
    using Cons.prems by simp
  from insert_by_insort[OF _ this, of x] Cons.prems ih show ?case
    by (simp add: sort_by_score_desc_def array_sort_def)
qed

subsection \<open>Reciprocal rank fusion\<close>

lemma rrf_fold_Nil: "rrf_fold [] n sc = sc"
  by (simp add: rrf_fold_def)

lemma rrf_fold_Cons: "rrf_fold (x # xs) n sc = rrf_fold xs (Suc n) (rrf_add sc x n)"
  by (simp add: rrf_fold_def)

lemma map_get_rrf_add:
  "map_get (rrf_add sc k n) k' =
     (if k' = k then Some (js_add (case map_get sc k of Some s \<Rightarrow> s | None \<Rightarrow> 0) (rrf_term (n + 1)))
      else map_get sc k')"
  by (simp add: rrf_add_def Let_def map_get_map_set)

lemma rrf_fold_other:
  "k \<notin> set ids \<Longrightarrow> map_get (rrf_fold ids n sc) k = map_get sc k"
  by (induction ids arbitrary: n sc) (auto simp: rrf_fold_Nil rrf_fold_Cons map_get_rrf_add)

lemma rrf_fold_nth:
  "distinct ids \<Longrightarrow> i < length ids \<Longrightarrow>
   map_get (rrf_fold ids n sc) (ids ! i) =
     Some (js_add (case map_get sc (ids ! i) of Some s \<Rightarrow> s | None \<Rightarrow> 0) (rrf_term (n + i + 1)))"
proof (induction ids arbitrary: n sc i)
  case Nil
  then show ?case by simp
next
  case (Cons x xs)
  show ?case
  proof (cases i)
    case 0
    with Cons.prems show ?thesis
      by (simp add: rrf_fold_Cons rrf_fold_other map_get_rrf_add)
  next
    case (Suc i')
    with Cons.prems have "xs ! i' \<noteq> x" by auto
    with Suc Cons.prems Cons.IH[of i' "Suc n" "rrf_add sc x n"] show ?thesis
      by (simp add: rrf_fold_Cons map_get_rrf_add)
  qed
qed

lemma rrf_add_keys: "set (map fst (rrf_add sc k n)) = insert k (set (map fst sc))"
  by (simp add: rrf_add_def Let_def keys_map_set_set del: set_map)

lemma rrf_fold_keys: "set (map fst (rrf_fold ids n sc)) = set (map fst sc) \<union> set ids"
proof (induction ids arbitrary: n sc)
  case Nil
  show ?case by (simp add: rrf_fold_Nil)
next
  case (Cons x xs)
  from Cons[of "Suc n" "rrf_add sc x n"] show ?case
    by (simp add: rrf_fold_Cons rrf_add_keys del: set_map)
qed

lemma rrf_fold_distinct: "distinct (map fst sc) \<Longrightarrow> distinct (map fst (rrf_fold ids n sc))"
proof (induction ids arbitrary: n sc)
  case Nil
  then show ?case by (simp add: rrf_fold_Nil)
next
  case (Cons x xs)
  from Cons.prems have "distinct (map fst (rrf_add sc x n))"
    by (simp add: rrf_add_def Let_def distinct_map_set)
  from Cons.IH[OF this] show ?case by (simp add: rrf_fold_Cons)
qed

text \<open>Every score is a double.\<close>

lemma set_map_set: "set (map_set m k v) \<subseteq> insert (k, v) (set m)"
  by (induction m) (auto split: if_splits)

lemma rrf_add_grid:
  assumes "\<forall>e\<in>set sc. on_grid (snd e)"
  shows "\<forall>e\<in>set (rrf_add sc k n). on_grid (snd e)"
proof
  fix e assume "e \<in> set (rrf_add sc k n)"
  then obtain x where "e \<in> set (map_set sc k (double_round x))"
    unfolding rrf_add_def Let_def js_add_def by blast
  with set_map_set[of sc k "double_round x"] have "e \<in> set sc \<or> e = (k, double_round x)"
    by blast
  with assms show "on_grid (snd e)" by (auto simp: double_round_grid)
qed

lemma rrf_fold_grid:
  "\<forall>e\<in>set sc. on_grid (snd e) \<Longrightarrow> \<forall>e\<in>set (rrf_fold ids n sc). on_grid (snd e)"
proof (induction ids arbitrary: n sc)
  case Nil
  then show ?case by (simp add: rrf_fold_Nil)
next
  case (Cons x xs)
  from Cons.IH[OF rrf_add_grid[OF Cons.prems]] show ?case by (simp add: rrf_fold_Cons)
qed

lemma add_vector_results_fst:
  "fst (foldl (\<lambda>(rrfScores, pointsById) (index', result).
              (rrf_add rrfScores (sp_id result) index',
               map_set pointsById (sp_id result) (sp_payload result)))
           (sc, pb) (enumerate n V)) = rrf_fold (map sp_id V) n sc"
  by (induction V arbitrary: n sc pb) (simp_all add: rrf_fold_Nil rrf_fold_Cons)

lemma add_text_results_fst:
  "fst (foldl (\<lambda>(rrfScores, pointsById) (index', result).
              (rrf_add rrfScores (point_id result) index',
               (if map_get pointsById (point_id result) = None
                then map_set pointsById (point_id result) (point_payload result)
                else pointsById)))
           (sc, pb) (enumerate n T)) = rrf_fold (map point_id T) n sc"
  by (induction T arbitrary: n sc pb) (simp_all add: rrf_fold_Nil rrf_fold_Cons)

lemma rrf_scores_eq:
  "fst (rrf_maps V T) = rrf_fold (map point_id T) 0 (rrf_fold (map sp_id V) 0 [])"
proof -
  obtain sc pb where a: "add_vector_results V ([], []) = (sc, pb)" by force
  have "sc = rrf_fold (map sp_id V) 0 []"
    using add_vector_results_fst[of "[]" "[]" 0 V] a by (simp add: add_vector_results_def)
  then show ?thesis
    using add_text_results_fst[of sc pb 0 T] a
    by (simp add: rrf_maps_def add_text_results_def)
qed

lemma add_vector_results_keys:
  "set (map fst sc) \<subseteq> set (map fst pb) \<Longrightarrow>
   set (map fst (fst (foldl (\<lambda>(rrfScores, pointsById) (index', result).
              (rrf_add rrfScores (sp_id result) index',
               map_set pointsById (sp_id result) (sp_payload result)))
           (sc, pb) (enumerate n V))))
   \<subseteq> set (map fst (snd (foldl (\<lambda>(rrfScores, pointsById) (index', result).
              (rrf_add rrfScores (sp_id result) index',
               map_set pointsById (sp_id result) (sp_payload result)))
           (sc, pb) (enumerate n V))))"
proof (induction V arbitrary: n sc pb)
  case Nil
  then show ?case by simp
next
  case (Cons r V)
  have "set (map fst (rrf_add sc (sp_id r) n)) \<subseteq> set (map fst (map_set pb (sp_id r) (sp_payload r)))"
    using Cons.prems unfolding rrf_add_keys keys_map_set_set by blast
  from Cons.IH[OF this, of "Suc n"] show ?case by simp
qed

lemma add_text_results_keys:
  "set (map fst sc) \<subseteq> set (map fst pb) \<Longrightarrow>
   set (map fst (fst (foldl (\<lambda>(rrfScores, pointsById) (index', result).
              (rrf_add rrfScores (point_id result) index',
               (if map_get pointsById (point_id result) = None
                then map_set pointsById (point_id result) (point_payload result)
                else pointsById)))
           (sc, pb) (enumerate n T))))
   \<subseteq> set (map fst (snd (foldl (\<lambda>(rrfScores, pointsById) (index', result).
              (rrf_add rrfScores (point_id result) index',
               (if map_get pointsById (point_id result) = None
                then map_set pointsById (point_id result) (point_payload result)
                else pointsById)))
           (sc, pb) (enumerate n T))))"
proof (induction T arbitrary: n sc pb)
  case Nil
  then show ?case by simp
next
  case (Cons r T)
  let ?pb = "if map_get pb (point_id r) = None
             then map_set pb (point_id r) (point_payload r) else pb"
  have "set (map fst (rrf_add sc (point_id r) n)) \<subseteq> set (map fst ?pb)"
  proof (cases "map_get pb (point_id r) = None")
    case True
    then have "?pb = map_set pb (point_id r) (point_payload r)" by simp
    then show ?thesis
      using Cons.prems unfolding rrf_add_keys by (simp only: keys_map_set_set) blast
  next
    case False
    then have "point_id r \<in> set (map fst pb)" by (simp only: map_get_in_keys)
    moreover from False have "?pb = pb" by auto
    ultimately show ?thesis using Cons.prems unfolding rrf_add_keys by (simp only:) blast
  qed
  from Cons.IH[OF this, of "Suc n"] show ?case by simp
qed

lemma rrf_maps_keys:
  "set (map fst (fst (rrf_maps V T))) \<subseteq> set (map fst (snd (rrf_maps V T)))"
proof -
  obtain sc pb where a: "add_vector_results V ([], []) = (sc, pb)" by force
  have "set (map fst sc) \<subseteq> set (map fst pb)"
    using add_vector_results_keys[of "[]" "[]" 0 V] a by (simp add: add_vector_results_def)
  from add_text_results_keys[OF this, of 0 T] a show ?thesis
    by (simp add: rrf_maps_def add_text_results_def)
qed

lemma rrf_fuse_pairs:
  "map (\<lambda>r. (sr_id r, sr_score r)) (rrf_fuse params V T) =
     slice (sort_by_score_desc (fst (rrf_maps V T)))
           (case p_offset params of Some off \<Rightarrow> off | None \<Rightarrow> 0)
           ((case p_offset params of Some off \<Rightarrow> off | None \<Rightarrow> 0) +
            (case p_limit params of Some l \<Rightarrow> l | None \<Rightarrow> DEFAULT_SEARCH_LIMIT))"
proof -
  obtain sc pb where m: "rrf_maps V T = (sc, pb)" by force
  let ?sl = "slice (sort_by_score_desc sc)
           (case p_offset params of Some off \<Rightarrow> off | None \<Rightarrow> 0)
           ((case p_offset params of Some off \<Rightarrow> off | None \<Rightarrow> 0) +
            (case p_limit params of Some l \<Rightarrow> l | None \<Rightarrow> DEFAULT_SEARCH_LIMIT))"
  have sub: "set ?sl \<subseteq> set sc"
  proof -
    have "set ?sl \<subseteq> set (sort_by_score_desc sc)"
      unfolding slice_def by (meson set_drop_subset set_take_subset subset_trans)
    then show ?thesis by (simp add: sort_by_score_desc_def set_array_sort)
  qed
  have keys: "set (map fst sc) \<subseteq> set (map fst pb)"
    using rrf_maps_keys[of V T] m by simp
  have "map (\<lambda>r. (sr_id r, sr_score r))
          (concat (map (\<lambda>(pid, score). case map_get pb pid of None \<Rightarrow> []
                          | Some payload \<Rightarrow> [to_result pid score payload]) xs)) = xs"
    if "set xs \<subseteq> set sc" for xs
    using that
  proof (induction xs)
    case Nil
    show ?case by simp
  next
    case (Cons e xs)
    obtain k v where e: "e = (k, v)" by (cases e)
    with Cons.prems have "k \<in> set (map fst sc)" by force
    with keys have "k \<in> set (map fst pb)" by blast
    then obtain payload where "map_get pb k = Some payload"
      using map_get_in_keys[of pb k] by auto
    with Cons e show ?case by (simp add: to_result_def)
  qed
  from this[OF sub] m show ?thesis
    by (simp add: rrf_fuse_def Let_def)
qed

text \<open>The index keeps one point for an identifier, so a result list names a point once.\<close>

lemma distinct_map_insort_key:
  "distinct (map f (insort_key g x xs)) = (f x \<notin> f ` set xs \<and> distinct (map f xs))"
  by (induction xs) (auto simp: set_insort_key)

lemma distinct_map_sort_key: "distinct (map f (sort_key g xs)) = distinct (map f xs)"
  by (induction xs) (simp_all add: distinct_map_insort_key)

lemma distinct_map_take_drop:
  "distinct (map f xs) \<Longrightarrow> distinct (map f (take n (drop m xs)))"
  by (simp add: take_map[symmetric] drop_map[symmetric] distinct_take distinct_drop)

lemma client_search_distinct:
  assumes "client_search ienv name v f limit offset threshold st = (Inr hits, st')"
    and "distinct (map point_id (points st))"
  shows "distinct (map sp_id hits)" and "points st' = points st"
proof -
  let ?c = "map (score_point ienv name v) (filter (filter_holds ienv f) (points st))"
  have "map sp_id (map (score_point ienv name v) xs) = map point_id xs" for xs
    by (induction xs) (simp_all add: score_point_def)
  then have m: "map sp_id ?c = map point_id (filter (filter_holds ienv f) (points st))" .
  have c: "distinct (map sp_id ?c)"
    unfolding m using assms(2) by (rule distinct_map_filter)
  have a: "distinct (map sp_id (case threshold of None \<Rightarrow> ?c
                                | Some t \<Rightarrow> filter (\<lambda>sp. t \<le> sp_score sp) ?c))"
    using c by (cases threshold) (simp_all add: distinct_map_filter)
  from assms(1) have "hits = take limit (drop offset (sort_key (\<lambda>sp. - sp_score sp)
                        (case threshold of None \<Rightarrow> ?c | Some t \<Rightarrow> filter (\<lambda>sp. t \<le> sp_score sp) ?c)))"
    and p: "points st' = points st"
    by (auto simp: client_search_def Let_def rpc_begin_def split: if_splits)
  with a show "distinct (map sp_id hits)"
    by (simp only: distinct_map_take_drop distinct_map_sort_key)
  from p show "points st' = points st" .
qed

lemma client_scroll_distinct:
  assumes "client_scroll ienv f limit offset st = (Inr hits, st')"
    and "distinct (map point_id (points st))"
  shows "distinct (map point_id hits)"
proof -
  from assms(1) have "hits = take limit (drop offset (filter (filter_holds ienv f) (points st)))"
    by (auto simp: client_scroll_def Let_def rpc_begin_def split: if_splits)
  with assms(2) show ?thesis
    by (simp add: distinct_map_take_drop distinct_map_filter)
qed

lemma call_index_Inr:
  "call_index f s = (Inr a, s') \<Longrightarrow> f (idx s) = (Inr a, idx s')"
  by (auto simp: call_index_def split: prod.splits)

lemma js_add_0_rrf_term: "js_add 0 (rrf_term n) = rrf_term n"
  unfolding rrf_term_def js_div_def by (rule js_add_0_left) (simp add: RRF_K_def)

lemma rrf_term_eq: "rrf_term n = js_div 1 (of_nat (60 + n))"
  by (simp only: rrf_term_def RRF_K_def)

text \<open>
  Claim C6. \<open>vectorResults\<close> and \<open>textResults\<close> are what the index answers to the dense
  search and to the text scroll of \<open>hybridSearchWithRRF\<close>, on an index that holds one point
  for an identifier. The hybrid search returns the entries \<open>offset .. offset + limit\<close> of a
  list \<open>fused\<close> of pairs of an identifier and its combined score, which is ordered by
  descending score and has exactly one entry for every point of either list. The score of
  a point at rank \<open>r\<^sub>d = i + 1\<close> of the dense list and rank \<open>r\<^sub>t = j + 1\<close> of the text list is
  \<open>1 / (60 + r\<^sub>d) + 1 / (60 + r\<^sub>t)\<close>; the score of a point of one list only is the term of
  that list. The quotients and the sum are those of JavaScript numbers: each is rounded to
  a double.
\<close>

theorem hybrid_rrf_scores:
  assumes dense: "call_index (client_search ienv (vector_name params) (query_vector params) qfilter
                    ((case p_limit params of Some l \<Rightarrow> l | None \<Rightarrow> DEFAULT_SEARCH_LIMIT) * RRF_FETCH_MULTIPLIER)
                    0 (p_scoreThreshold params)) s = (Inr vectorResults, s1)"
    and scroll: "call_index (client_scroll ienv
                    (Some ((case qfilter of Some must \<Rightarrow> must | None \<Rightarrow> []) @
                           [MatchText ''content'' (case p_query params of Some q \<Rightarrow> q | None \<Rightarrow> [])]))
                    ((case p_limit params of Some l \<Rightarrow> l | None \<Rightarrow> DEFAULT_SEARCH_LIMIT) * RRF_FETCH_MULTIPLIER)
                    0) s1 = (Inr textResults, s2)"
    and uniq: "distinct (map point_id (points (idx s)))"
  shows "\<exists>results fused.
           fst (hybridSearchWithRRF ienv params qfilter now s) = Inr results \<and>
           map (\<lambda>r. (sr_id r, sr_score r)) results =
             slice fused (case p_offset params of Some off \<Rightarrow> off | None \<Rightarrow> 0)
               ((case p_offset params of Some off \<Rightarrow> off | None \<Rightarrow> 0) +
                (case p_limit params of Some l \<Rightarrow> l | None \<Rightarrow> DEFAULT_SEARCH_LIMIT)) \<and>
           sorted_wrt (\<lambda>a b. snd a \<ge> snd b) fused \<and>
           distinct (map fst fused) \<and>
           set (map fst fused) = set (map sp_id vectorResults) \<union> set (map point_id textResults) \<and>
           (\<forall>i j. i < length vectorResults \<and> j < length textResults \<and>
                  sp_id (vectorResults ! i) = point_id (textResults ! j) \<longrightarrow>
                  (sp_id (vectorResults ! i),
                   js_add (js_div 1 (of_nat (60 + (i + 1)))) (js_div 1 (of_nat (60 + (j + 1))))) \<in> set fused) \<and>
           (\<forall>i. i < length vectorResults \<and> sp_id (vectorResults ! i) \<notin> set (map point_id textResults) \<longrightarrow>
                  (sp_id (vectorResults ! i), js_div 1 (of_nat (60 + (i + 1)))) \<in> set fused) \<and>
           (\<forall>j. j < length textResults \<and> point_id (textResults ! j) \<notin> set (map sp_id vectorResults) \<longrightarrow>
                  (point_id (textResults ! j), js_div 1 (of_nat (60 + (j + 1)))) \<in> set fused)"
proof -
  let ?V = "map sp_id vectorResults" and ?T = "map point_id textResults"
  let ?sc = "fst (rrf_maps vectorResults textResults)"
  let ?fused = "sort_by_score_desc ?sc"
  note cs = client_search_distinct[OF call_index_Inr[OF dense] uniq]
  have dv: "distinct ?V" by (rule cs(1))
  have dt: "distinct ?T"
    using client_scroll_distinct[OF call_index_Inr[OF scroll]] cs(2) uniq by simp
  note eq = rrf_scores_eq[of vectorResults textResults]
  have grid: "\<forall>e\<in>set ?sc. on_grid (snd e)"
    unfolding eq by (intro rrf_fold_grid) simp
  note srt = sort_by_score_desc_sort_key[OF grid]
  have set_fused: "set ?fused = set ?sc"
    by (simp add: sort_by_score_desc_def set_array_sort)
  have mem: "(k, v) \<in> set ?fused" if "map_get ?sc k = Some v" for k v
  proof -
    have "(k, v) \<in> set m" if "map_get m k = Some v" for m :: "(string \<times> rat) list"
      using that by (induction m) (auto split: if_splits)
    from this[OF that] show ?thesis by (simp only: set_fused)
  qed
  have run: "hybridSearchWithRRF ienv params qfilter now s =
               (Inr (rrf_fuse params vectorResults textResults),
                track_after_search (map sr_id (rrf_fuse params vectorResults textResults)) now s2)"
    by (simp add: hybridSearchWithRRF_def Let_def and_then_def dense scroll)
  have r1: "fst (hybridSearchWithRRF ienv params qfilter now s) = Inr (rrf_fuse params vectorResults textResults)"
    by (simp add: run)
  have r2: "map (\<lambda>r. (sr_id r, sr_score r)) (rrf_fuse params vectorResults textResults) =
             slice ?fused (case p_offset params of Some off \<Rightarrow> off | None \<Rightarrow> 0)
               ((case p_offset params of Some off \<Rightarrow> off | None \<Rightarrow> 0) +
                (case p_limit params of Some l \<Rightarrow> l | None \<Rightarrow> DEFAULT_SEARCH_LIMIT))"
    by (rule rrf_fuse_pairs)
  have "sorted (map (\<lambda>e. - snd e) (sort_key (\<lambda>e. - snd e) ?sc))"
    by (rule sorted_sort_key)
  then have r3: "sorted_wrt (\<lambda>a b. snd a \<ge> snd b) ?fused"
    unfolding srt by (simp add: sorted_map sorted_wrt_iff_nth_less)
  have "distinct (map fst ?sc)"
    unfolding eq by (intro rrf_fold_distinct) simp
  then have r4: "distinct (map fst ?fused)"
    unfolding srt by (simp only: distinct_map_sort_key)
  have r5: "set (map fst ?fused) = set ?V \<union> set ?T"
  proof -
    have "set (map fst ?fused) = fst ` set ?sc" by (simp add: set_fused)
    also have "\<dots> = set (map fst ?sc)" by simp
    also have "\<dots> = set ?V \<union> set ?T" unfolding eq rrf_fold_keys by simp
    finally show ?thesis .
  qed
  have r6: "(sp_id (vectorResults ! i),
             js_add (js_div 1 (of_nat (60 + (i + 1)))) (js_div 1 (of_nat (60 + (j + 1))))) \<in> set ?fused"
    if a: "i < length vectorResults \<and> j < length textResults \<and>
           sp_id (vectorResults ! i) = point_id (textResults ! j)" for i j
  proof -
    from a have i: "i < length ?V" and j: "j < length ?T" and ij: "?V ! i = ?T ! j" by simp_all
    have "map_get (rrf_fold ?V 0 []) (?V ! i) = Some (rrf_term (i + 1))"
      using rrf_fold_nth[OF dv i, of 0 "[]"] by (simp add: js_add_0_rrf_term)
    then have "map_get (rrf_fold ?V 0 []) (?T ! j) = Some (rrf_term (i + 1))"
      using ij by simp
    with rrf_fold_nth[OF dt j, of 0 "rrf_fold ?V 0 []"]
    have "map_get ?sc (?T ! j) = Some (js_add (rrf_term (i + 1)) (rrf_term (j + 1)))"
      by (simp add: eq)
    then have "map_get ?sc (sp_id (vectorResults ! i)) = Some (js_add (rrf_term (i + 1)) (rrf_term (j + 1)))"
      using ij i by simp
    then show ?thesis unfolding rrf_term_eq by (rule mem)
  qed
  have r7: "(sp_id (vectorResults ! i), js_div 1 (of_nat (60 + (i + 1)))) \<in> set ?fused"
    if a: "i < length vectorResults \<and> sp_id (vectorResults ! i) \<notin> set (map point_id textResults)" for i
  proof -
    from a have i: "i < length ?V" and n: "?V ! i \<notin> set ?T" by simp_all
    have "map_get (rrf_fold ?V 0 []) (?V ! i) = Some (rrf_term (i + 1))"
      using rrf_fold_nth[OF dv i, of 0 "[]"] by (simp add: js_add_0_rrf_term)
    with rrf_fold_other[OF n, of 0 "rrf_fold ?V 0 []"]
    have "map_get ?sc (sp_id (vectorResults ! i)) = Some (rrf_term (i + 1))"
      using i by (simp add: eq)
    then show ?thesis unfolding rrf_term_eq by (rule mem)
  qed
  have r8: "(point_id (textResults ! j), js_div 1 (of_nat (60 + (j + 1)))) \<in> set ?fused"
    if a: "j < length textResults \<and> point_id (textResults ! j) \<notin> set (map sp_id vectorResults)" for j
  proof -
    from a have j: "j < length ?T" and n: "?T ! j \<notin> set ?V" by simp_all
    have "map_get (rrf_fold ?V 0 []) (?T ! j) = None"
      using rrf_fold_other[OF n, of 0 "[]"] by simp
    with rrf_fold_nth[OF dt j, of 0 "rrf_fold ?V 0 []"]
    have "map_get ?sc (point_id (textResults ! j)) = Some (rrf_term (j + 1))"
      using j by (simp add: eq js_add_0_rrf_term)
    then show ?thesis unfolding rrf_term_eq by (rule mem)
  qed
  from r1 r2 r3 r4 r5 r6 r7 r8 show ?thesis by blast
qed

text \<open>
  An index of four points, asked for \<open>cache\<close>: the dense search ranks \<open>A\<close>, \<open>B\<close>, \<open>C\<close> (the
  score of \<open>D\<close> is below the threshold), the text scroll gives \<open>B\<close>, \<open>A\<close>, \<open>D\<close>. \<open>A\<close> and \<open>B\<close> get
  the double of \<open>1/61 + 1/62\<close>, \<open>C\<close> and \<open>D\<close> the double of \<open>1/63\<close>.
\<close>

theorem hybrid_rrf_scores_witness:
  "fst (call_index (client_search fusion_index_env (vector_name fusion_params) (query_vector fusion_params) None
          ((case p_limit fusion_params of Some l \<Rightarrow> l | None \<Rightarrow> DEFAULT_SEARCH_LIMIT) * RRF_FETCH_MULTIPLIER)
          0 (p_scoreThreshold fusion_params)) (ready_state fusion_points))
     = Inr fusion_vector_results \<and>
   fst (call_index (client_scroll fusion_index_env
          (Some ((case None of Some must \<Rightarrow> must | None \<Rightarrow> []) @
                 [MatchText ''content'' (case p_query fusion_params of Some q \<Rightarrow> q | None \<Rightarrow> [])]))
          ((case p_limit fusion_params of Some l \<Rightarrow> l | None \<Rightarrow> DEFAULT_SEARCH_LIMIT) * RRF_FETCH_MULTIPLIER)
          0)
        (snd (call_index (client_search fusion_index_env (vector_name fusion_params) (query_vector fusion_params) None
          ((case p_limit fusion_params of Some l \<Rightarrow> l | None \<Rightarrow> DEFAULT_SEARCH_LIMIT) * RRF_FETCH_MULTIPLIER)
          0 (p_scoreThreshold fusion_params)) (ready_state fusion_points))))
     = Inr fusion_text_results \<and>
   distinct (map point_id (points (idx (ready_state fusion_points)))) \<and>
   (\<exists>results fused.
      fst (hybridSearchWithRRF fusion_index_env fusion_params None 2000 (ready_state fusion_points)) = Inr results \<and>
      map (\<lambda>r. (sr_id r, sr_score r)) results = slice fused 0 (0 + DEFAULT_SEARCH_LIMIT) \<and>
      sorted_wrt (\<lambda>a b. snd a \<ge> snd b) fused \<and>
      distinct (map fst fused) \<and>
      (''A'', js_add (js_div 1 (of_nat (60 + (0 + 1)))) (js_div 1 (of_nat (60 + (1 + 1))))) \<in> set fused \<and>
      (''C'', js_div 1 (of_nat (60 + (2 + 1)))) \<in> set fused \<and>
      (''D'', js_div 1 (of_nat (60 + (2 + 1)))) \<in> set fused) \<and>
   map_sum id (map (\<lambda>r. (sr_id r, sr_score r)))
     (fst (search example_qdrant_config fusion_index_env fusion_params 2000 (ready_state fusion_points)))
     = Inr [(''A'', 146468205755307 / 4503599627370496), (''B'', 146468205755307 / 4503599627370496),
            (''C'', 285942833483841 / 18014398509481984), (''D'', 285942833483841 / 18014398509481984)]"
proof -
  let ?dense = "call_index (client_search fusion_index_env (vector_name fusion_params) (query_vector fusion_params) None
          ((case p_limit fusion_params of Some l \<Rightarrow> l | None \<Rightarrow> DEFAULT_SEARCH_LIMIT) * RRF_FETCH_MULTIPLIER)
          0 (p_scoreThreshold fusion_params))"
  let ?scroll = "call_index (client_scroll fusion_index_env
          (Some ((case None of Some must \<Rightarrow> must | None \<Rightarrow> []) @
                 [MatchText ''content'' (case p_query fusion_params of Some q \<Rightarrow> q | None \<Rightarrow> [])]))
          ((case p_limit fusion_params of Some l \<Rightarrow> l | None \<Rightarrow> DEFAULT_SEARCH_LIMIT) * RRF_FETCH_MULTIPLIER)
          0)"
  let ?s = "ready_state fusion_points"
  have a: "fst (?dense ?s) = Inr fusion_vector_results"
    by code_simp
  have b: "fst (?scroll (snd (?dense ?s))) = Inr fusion_text_results"
    by code_simp
  have c: "distinct (map point_id (points (idx ?s)))"
    by code_simp
  from a have a': "?dense ?s = (Inr fusion_vector_results, snd (?dense ?s))"
    by (metis prod.collapse)
  from b have b': "?scroll (snd (?dense ?s)) = (Inr fusion_text_results, snd (?scroll (snd (?dense ?s))))"
    by (metis prod.collapse)
  have p: "p_offset fusion_params = None" "p_limit fusion_params = None"
    by (simp_all add: fusion_params_def)
  have i1: "(0::nat) < length fusion_vector_results \<and> (1::nat) < length fusion_text_results \<and>
            sp_id (fusion_vector_results ! 0) = point_id (fusion_text_results ! 1)"
    and i2: "(2::nat) < length fusion_vector_results \<and>
             sp_id (fusion_vector_results ! 2) \<notin> set (map point_id fusion_text_results)"
    and i3: "(2::nat) < length fusion_text_results \<and>
             point_id (fusion_text_results ! 2) \<notin> set (map sp_id fusion_vector_results)"
    and n: "sp_id (fusion_vector_results ! 0) = ''A''" "sp_id (fusion_vector_results ! 2) = ''C''"
      "point_id (fusion_text_results ! 2) = ''D''"
    by code_simp+
  from hybrid_rrf_scores[OF a' b' c, of 2000] obtain results fused where
    r: "fst (hybridSearchWithRRF fusion_index_env fusion_params None 2000 ?s) = Inr results"
      "map (\<lambda>r. (sr_id r, sr_score r)) results = slice fused 0 (0 + DEFAULT_SEARCH_LIMIT)"
      "sorted_wrt (\<lambda>a b. snd a \<ge> snd b) fused" "distinct (map fst fused)"
    and both: "\<And>i j. i < length fusion_vector_results \<and> j < length fusion_text_results \<and>
                  sp_id (fusion_vector_results ! i) = point_id (fusion_text_results ! j) \<Longrightarrow>
                  (sp_id (fusion_vector_results ! i),
                   js_add (js_div 1 (of_nat (60 + (i + 1)))) (js_div 1 (of_nat (60 + (j + 1))))) \<in> set fused"
    and vonly: "\<And>i. i < length fusion_vector_results \<and>
                  sp_id (fusion_vector_results ! i) \<notin> set (map point_id fusion_text_results) \<Longrightarrow>
                  (sp_id (fusion_vector_results ! i), js_div 1 (of_nat (60 + (i + 1)))) \<in> set fused"
    and tonly: "\<And>j. j < length fusion_text_results \<and>
                  point_id (fusion_text_results ! j) \<notin> set (map sp_id fusion_vector_results) \<Longrightarrow>
                  (point_id (fusion_text_results ! j), js_div 1 (of_nat (60 + (j + 1)))) \<in> set fused"
    unfolding p option.case by blast
  from both[OF i1] vonly[OF i2] tonly[OF i3]
  have m: "(''A'', js_add (js_div 1 (of_nat (60 + (0 + 1)))) (js_div 1 (of_nat (60 + (1 + 1))))) \<in> set fused"
    "(''C'', js_div 1 (of_nat (60 + (2 + 1)))) \<in> set fused"
    "(''D'', js_div 1 (of_nat (60 + (2 + 1)))) \<in> set fused"
    unfolding n by simp_all
  have e: "\<exists>results fused.
      fst (hybridSearchWithRRF fusion_index_env fusion_params None 2000 ?s) = Inr results \<and>
      map (\<lambda>r. (sr_id r, sr_score r)) results = slice fused 0 (0 + DEFAULT_SEARCH_LIMIT) \<and>
      sorted_wrt (\<lambda>a b. snd a \<ge> snd b) fused \<and>
      distinct (map fst fused) \<and>
      (''A'', js_add (js_div 1 (of_nat (60 + (0 + 1)))) (js_div 1 (of_nat (60 + (1 + 1))))) \<in> set fused \<and>
      (''C'', js_div 1 (of_nat (60 + (2 + 1)))) \<in> set fused \<and>
      (''D'', js_div 1 (of_nat (60 + (2 + 1)))) \<in> set fused"
    using r m by blast
  have v: "map_sum id (map (\<lambda>r. (sr_id r, sr_score r)))
     (fst (search example_qdrant_config fusion_index_env fusion_params 2000 ?s))
     = Inr [(''A'', 146468205755307 / 4503599627370496), (''B'', 146468205755307 / 4503599627370496),
            (''C'', 285942833483841 / 18014398509481984), (''D'', 285942833483841 / 18014398509481984)]"
    by code_simp
  from a b c e v show ?thesis by blast
qed

text \<open>
  Two sums that are equal as fractions and differ as doubles: \<open>1/88 + 1/72 = 1/99 + 1/66\<close>,
  but the double of the first sum is one unit in the last place below the double of the
  second. So a point at ranks 39 and 6 comes before a point at ranks 28 and 12.
\<close>

lemma rrf_rounding_breaks_tie:
  "(1 / 88 + 1 / 72 :: rat) = 1 / 99 + 1 / 66 \<and>
   js_add (js_div 1 (of_nat (60 + 28))) (js_div 1 (of_nat (60 + 12))) = 7278544852315953 / 2 ^ 58 \<and>
   js_add (js_div 1 (of_nat (60 + 39))) (js_div 1 (of_nat (60 + 6))) = 7278544852315954 / 2 ^ 58 \<and>
   sort_by_score_desc
     [(''X'', js_add (js_div 1 (of_nat (60 + 28))) (js_div 1 (of_nat (60 + 12)))),
      (''Y'', js_add (js_div 1 (of_nat (60 + 39))) (js_div 1 (of_nat (60 + 6))))]
     = [(''Y'', js_add (js_div 1 (of_nat (60 + 39))) (js_div 1 (of_nat (60 + 6)))),
        (''X'', js_add (js_div 1 (of_nat (60 + 28))) (js_div 1 (of_nat (60 + 12))))]"
  by code_simp

text \<open>\<open>search\<close> runs the hybrid search when it is asked for and a query is given.\<close>

lemma search_hybrid:
  assumes "initialized s" "p_useHybridSearch params = Some True" "p_query params = Some q" "q \<noteq> []"
  shows "search cfg ienv params now s
           = hybridSearchWithRRF ienv params (buildFilter now (p_filter params)) now s"
  using assms by (simp add: search_def and_then_def ensureInitialized_def Let_def)

subsection \<open>Payload defaults of \<open>upsert\<close>\<close>

lemma spread_Cons: "spread a ((k, v) # b) = spread (map_set a k v) b"
  by (simp add: spread_def)

lemma spread_get:
  "distinct (map fst b) \<Longrightarrow>
   map_get (spread a b) k = (case map_get b k of Some v \<Rightarrow> Some v | None \<Rightarrow> map_get a k)"
proof (induction b arbitrary: a)
  case Nil
  show ?case by (simp add: spread_def)
next
  case (Cons e b)
  obtain k' v' where e: "e = (k', v')" by (cases e)
  from Cons.prems e have nk: "map_get b k' = None" and d: "distinct (map fst b)"
    by (simp_all add: map_get_None_iff)
  from Cons.IH[OF d, of "map_set a k' v'"] nk e show ?case
    by (auto simp: spread_Cons map_get_map_set split: option.splits)
qed

lemma upsert_payload_updated_at:
  "distinct (map fst metadata) \<Longrightarrow>
   map_get (upsert_payload content metadata now) ''updated_at'' =
     (case map_get metadata ''updated_at'' of Some v \<Rightarrow> Some v | None \<Rightarrow> Some (JTime now))"
  by (simp add: upsert_payload_def spread_get split: option.splits)

lemma upsert_defaults:
  assumes "distinct (map fst metadata)"
  shows "map_get metadata ''id'' = None \<longrightarrow> upsert_id metadata uuid = uuid"
    and "map_get metadata ''created_at'' = None \<longrightarrow>
           map_get (upsert_payload content metadata now) ''created_at'' = Some (JTime now)"
    and "map_get metadata ''memory_type'' = None \<longrightarrow>
           map_get (upsert_payload content metadata now) ''memory_type'' = Some (JStr ''long-term'')"
    and "map_get metadata ''confidence'' = None \<longrightarrow>
           map_get (upsert_payload content metadata now) ''confidence'' = Some (JNum (7 / 10))"
    and "map_get metadata ''access_count'' = None \<longrightarrow>
           map_get (upsert_payload content metadata now) ''access_count'' = Some (JNum 0)"
    and "map_get metadata ''last_accessed_at'' = None \<longrightarrow>
           map_get (upsert_payload content metadata now) ''last_accessed_at'' = Some JNull"
  using assms
  by (simp_all add: upsert_payload_def upsert_id_def spread_get DEFAULT_CONFIDENCE_def)

text \<open>Claim C4. \<open>upsert\<close> fills in the defaults of the payload (lemma \<open>upsert_defaults\<close>), but
  the caller's metadata is spread over the synthesised fields last, so an \<open>updated_at\<close> supplied
  in the metadata is what gets stored: called at instant 2000 with metadata
  \<open>{updated_at: 1000}\<close>, \<open>upsert\<close> stores a point whose \<open>updated_at\<close> is 1000, not 2000, while its
  \<open>created_at\<close> is 2000. (\<open>updatePayload\<close> writes \<open>updated_at\<close> after the spread and does store
  the current instant.)\<close>

theorem upsert_keeps_supplied_updated_at:
  "fst (upsert example_qdrant_config ''note'' unit_vector [(''updated_at'', JTime 1000)] None ''u1'' 2000
          (ready_state [])) = Inr ''u1'' \<and>
   map (\<lambda>p. (point_id p, map_get (point_payload p) ''updated_at'', map_get (point_payload p) ''created_at''))
       (points (idx (snd (upsert example_qdrant_config ''note'' unit_vector [(''updated_at'', JTime 1000)]
                            None ''u1'' 2000 (ready_state [])))))
     = [(''u1'', Some (JTime 1000), Some (JTime 2000))]"
  by code_simp

lemma updatePayload_writes_now:
  "map (\<lambda>p. map_get (point_payload p) ''updated_at'')
       (points (idx (snd (updatePayload example_qdrant_config example_id [(''updated_at'', JTime 1000)] 2000
                            (ready_state [expired_point])))))
     = [Some (JTime 2000)]"
  by code_simp

subsection \<open>Expiry exclusion of \<open>buildFilter\<close>\<close>

lemma buildFilter_has_expiry_exclusion:
  "\<exists>must. buildFilter now (Some f) = Some must \<and> expiry_exclusion now \<in> set must"
  by (auto simp: buildFilter_def Let_def split: option.splits)

lemma buildFilter_excludes_expired:
  assumes "filter_holds ienv (buildFilter now (Some f)) p"
  shows "case map_get (point_payload p) ''expires_at'' of
           None \<Rightarrow> True | Some JNull \<Rightarrow> True | Some (JTime t) \<Rightarrow> now < t | Some _ \<Rightarrow> False"
proof -
  from buildFilter_has_expiry_exclusion[of now f] obtain must
    where m: "buildFilter now (Some f) = Some must" "expiry_exclusion now \<in> set must" by blast
  with assms have "cond_holds ienv (point_payload p) (expiry_exclusion now)"
    by (auto simp: filter_holds_def list_all_iff)
  then show ?thesis
    by (auto simp: expiry_exclusion_def split: option.splits json.splits)
qed

text \<open>Claim C1. When a filter object is supplied, \<open>buildFilter\<close> appends the expiry exclusion
  (lemmas \<open>buildFilter_has_expiry_exclusion\<close> and \<open>buildFilter_excludes_expired\<close>). When no filter
  object is supplied, \<open>buildFilter\<close> returns no filter at all, and the request reaches the
  index without the expiry exclusion: over a collection that holds one point expired at 500
  and one lasting point, at instant 2000, \<open>count\<close>, \<open>list\<close> and \<open>search\<close> called without filters
  count and return the expired point too, whereas \<open>count\<close> with an empty filter object
  counts one point.\<close>

theorem no_filter_returns_expired:
  "buildFilter 2000 None = None \<and>
   map_get (point_payload expired_point) ''expires_at'' = Some (JTime 500) \<and>
   fst (count example_qdrant_config example_index_env None 2000 (ready_state [expired_point, lasting_point]))
     = Inr 2 \<and>
   map_sum id (map sr_id)
     (fst (list_points example_qdrant_config example_index_env None 100 0 2000
             (ready_state [expired_point, lasting_point])))
     = Inr [example_id, other_id] \<and>
   map_sum id (map sr_id)
     (fst (search example_qdrant_config example_index_env (default_params\<lparr>p_useHybridSearch := None\<rparr>) 2000
             (ready_state [expired_point, lasting_point])))
     = Inr [example_id, other_id] \<and>
   rpc_log (idx (snd (count example_qdrant_config example_index_env None 2000
                        (ready_state [expired_point, lasting_point]))))
     = [CountPoints None] \<and>
   fst (count example_qdrant_config example_index_env (Some no_filters) 2000
          (ready_state [expired_point, lasting_point]))
     = Inr 1"
  by code_simp

subsection \<open>Storing content that holds secrets\<close>

lemma blocked_secrets:
  assumes "\<not> safe (isSafeToStore rx content)"
  shows "safe_secrets (isSafeToStore rx content) = Some (blocking_secrets rx content)"
    and "blocking_secrets rx content \<noteq> []"
  using assms
  by (auto simp: isSafeToStore_def blocking_secrets_def Let_def MEDIUM_CONFIDENCE_BLOCK_THRESHOLD_def
           split: if_splits)

text \<open>Claim C7. Whenever the arguments of a store call are valid and the secret scanner does not
  find the content safe, the handler answers with \<open>success = false\<close>, error type
  \<open>VALIDATION_ERROR\<close>, \<open>metadata.error_code = SECRETS_DETECTED\<close> and the list of the blocking
  detections (which is not empty), and the state of the index service, the log of requests
  sent to the index included, is what it was before the call.\<close>

theorem store_blocked_on_secrets:
  assumes "parse_store_input args = Inr input'"
    and "\<not> safe (isSafeToStore (te_matchAll env) (si_content input'))"
  shows "r_success (fst (memoryStoreHandler env args s)) = False \<and>
         r_error_type (fst (memoryStoreHandler env args s)) = Some VALIDATION_ERROR \<and>
         map_get (response_metadata (fst (memoryStoreHandler env args s))) ''error_code''
           = Some (JStr ''SECRETS_DETECTED'') \<and>
         map_get (response_metadata (fst (memoryStoreHandler env args s))) ''secrets_detected''
           = Some (JList (map secret_to_json (blocking_secrets (te_matchAll env) (si_content input')))) \<and>
         blocking_secrets (te_matchAll env) (si_content input') \<noteq> [] \<and>
         snd (memoryStoreHandler env args s) = s"
proof -
  have h: "memoryStoreHandler env args s =
        (secrets_blocked_response (te_matchAll env) (si_content input')
           (isSafeToStore (te_matchAll env) (si_content input')), s)"
    using assms by (simp add: memoryStoreHandler_def Let_def)
  note b = blocked_secrets[OF assms(2)]
  show ?thesis
    unfolding h using b
    by (simp add: secrets_blocked_response_def Let_def errorResponse_def response_metadata_def)
qed

text \<open>Scenario S1: the content \<open>key=sk-\<close> followed by 48 letters \<open>a\<close>.\<close>

theorem store_blocked_on_secrets_witness:
  "parse_store_input (content_args S1_content)
     = Inr \<lparr>si_content = S1_content, si_metadata = None, si_auto_chunk = True\<rparr> \<and>
   \<not> safe (isSafeToStore (te_matchAll example_tool_env) S1_content) \<and>
   r_success (fst (memoryStoreHandler example_tool_env (content_args S1_content) (ready_state []))) = False \<and>
   r_error_type (fst (memoryStoreHandler example_tool_env (content_args S1_content) (ready_state [])))
     = Some VALIDATION_ERROR \<and>
   map_get (response_metadata (fst (memoryStoreHandler example_tool_env (content_args S1_content) (ready_state []))))
     ''error_code'' = Some (JStr ''SECRETS_DETECTED'') \<and>
   snd (memoryStoreHandler example_tool_env (content_args S1_content) (ready_state [])) = ready_state []"
proof -
  have p: "parse_store_input (content_args S1_content)
     = Inr \<lparr>si_content = S1_content, si_metadata = None, si_auto_chunk = True\<rparr>"
    by (simp add: parse_store_input_def content_args_def S1_content_def CONTENT_MAX_LENGTH_def Let_def)
  have u: "\<not> safe (isSafeToStore (te_matchAll example_tool_env)
                 (si_content \<lparr>si_content = S1_content, si_metadata = None, si_auto_chunk = True\<rparr>))"
    by code_simp
  then have u': "\<not> safe (isSafeToStore (te_matchAll example_tool_env) S1_content)" by simp
  from store_blocked_on_secrets[OF p u, of "ready_state []"] p u' show ?thesis by blast
qed

lemma store_admitted_reaches_index:
  "r_success (fst (memoryStoreHandler example_tool_env (content_args ''remember the milk'') (ready_state []))) \<and>
   rpc_log (idx (snd (memoryStoreHandler example_tool_env (content_args ''remember the milk'') (ready_state []))))
     = [UpsertPoints [''00000000-0000-4000-8000-000000000000'']] \<and>
   map point_id (points (idx (snd (memoryStoreHandler example_tool_env (content_args ''remember the milk'')
                                     (ready_state [])))))
     = [''00000000-0000-4000-8000-000000000000'']"
proof -
  let ?input = "\<lparr>si_content = ''remember the milk'', si_metadata = None, si_auto_chunk = True\<rparr>"
  have p: "parse_store_input (content_args ''remember the milk'') = Inr ?input"
    by (simp add: parse_store_input_def content_args_def CONTENT_MAX_LENGTH_def Let_def)
  have ok: "safe (isSafeToStore (te_matchAll example_tool_env) ''remember the milk'')"
    by code_simp
  have st: "fst (store_after_scan example_tool_env ?input (ready_state []))
              = Inr (JObj [(''id'', JStr ''00000000-0000-4000-8000-000000000000''),
                           (''workspace'', JStr ''memory'')]) \<and>
            rpc_log (idx (snd (store_after_scan example_tool_env ?input (ready_state []))))
              = [UpsertPoints [''00000000-0000-4000-8000-000000000000'']] \<and>
            map point_id (points (idx (snd (store_after_scan example_tool_env ?input (ready_state [])))))
              = [''00000000-0000-4000-8000-000000000000'']"
    by code_simp
  obtain r s' where rs: "store_after_scan example_tool_env ?input (ready_state []) = (r, s')"
    by force
  with st obtain dat where r: "r = Inr dat" by auto
  from p ok rs r have "memoryStoreHandler example_tool_env (content_args ''remember the milk'') (ready_state [])
      = (successResponse ''Memory stored successfully'' (Some dat)
           (Some [(''duration_ms'', JNum (of_nat (te_elapsed example_tool_env)))]), s')"
    by (simp add: memoryStoreHandler_def Let_def CHUNK_THRESHOLD_LENGTH_def)
  with st rs show ?thesis by (simp add: successResponse_def)
qed

subsection \<open>Deleting a memory\<close>

lemma and_then_Inr:
  "and_then m f s = (Inr b, s'') \<Longrightarrow> \<exists>a s'. m s = (Inr a, s') \<and> f a s' = (Inr b, s'')"
  by (auto simp: and_then_def split: prod.splits sum.splits)

lemma call_index_state:
  "call_index f s = (r, s') \<Longrightarrow>
     initialized s' = initialized s \<and> accessTrackingFailureCount s' = accessTrackingFailureCount s \<and>
     lastTrackingWarningTime s' = lastTrackingWarningTime s \<and> f (idx s) = (r, idx s')"
  by (auto simp: call_index_def split: prod.splits)

lemma ensureInitialized_Inr:
  assumes "ensureInitialized cfg s = (Inr u, s')"
  shows "initialized s'" and "initialized s \<Longrightarrow> s' = s"
proof -
  show "initialized s \<Longrightarrow> s' = s"
    using assms by (simp add: ensureInitialized_def)
  show "initialized s'"
  proof (cases "initialized s")
    case True
    with assms show ?thesis by (simp add: ensureInitialized_def)
  next
    case False
    with assms have i: "and_then (call_index client_getCollections) (\<lambda>exists.
             and_then (if \<not> exists then createCollection cfg else validateCollectionSchema cfg) (\<lambda>_.
               and_then createPayloadIndexes (\<lambda>_ s'. (Inr (), s'\<lparr>initialized := True\<rparr>)))) s = (Inr u, s')"
      by (simp add: ensureInitialized_def initialize_def)
    from and_then_Inr[OF i] obtain a s1 where
      "and_then (if \<not> a then createCollection cfg else validateCollectionSchema cfg) (\<lambda>_.
               and_then createPayloadIndexes (\<lambda>_ s'. (Inr (), s'\<lparr>initialized := True\<rparr>))) s1 = (Inr u, s')"
      by blast
    from and_then_Inr[OF this] obtain b s2 where
      "and_then createPayloadIndexes (\<lambda>_ s'. (Inr (), s'\<lparr>initialized := True\<rparr>)) s2 = (Inr u, s')"
      by blast
    from and_then_Inr[OF this] obtain c s3 where "(Inr (), s3\<lparr>initialized := True\<rparr>) = (Inr u, s')"
      by blast
    then show ?thesis by auto
  qed
qed

lemma client_retrieve_Inr:
  "client_retrieve ids st = (Inr ps, st') \<Longrightarrow>
     online st \<and> st' = rpc_begin (RetrievePoints ids) st \<and>
     ps = filter (\<lambda>p. point_id p \<in> set ids) (points st)"
  by (auto simp: client_retrieve_def Let_def rpc_begin_def split: if_splits)

lemma client_delete_Inr:
  "client_delete ids st = (Inr u, st') \<Longrightarrow>
     online st \<and> online st' \<and> points st' = filter (\<lambda>p. point_id p \<notin> set ids) (points st)"
  by (auto simp: client_delete_def Let_def rpc_begin_def split: if_splits)

lemma delete_Inr:
  assumes "delete cfg pid s = (Inr u, s')"
  shows "initialized s' \<and> online (idx s') \<and> (\<forall>p\<in>set (points (idx s')). point_id p \<noteq> pid)"
proof -
  from and_then_Inr[OF assms[unfolded delete_def]] obtain a s1 where
    e: "ensureInitialized cfg s = (Inr a, s1)" and c: "call_index (client_delete [pid]) s1 = (Inr u, s')"
    by blast
  from call_index_state[OF c] have i: "initialized s' = initialized s1"
    and d: "client_delete [pid] (idx s1) = (Inr u, idx s')" by simp_all
  from client_delete_Inr[OF d] ensureInitialized_Inr(1)[OF e] i show ?thesis by auto
qed

text \<open>On a ready index that does not hold the point.\<close>

lemma get_absent:
  assumes "initialized s" "online (idx s)" "\<forall>p\<in>set (points (idx s)). point_id p \<noteq> pid"
  shows "get cfg pid now s = (Inr None, s\<lparr>idx := rpc_begin (RetrievePoints [pid]) (idx s)\<rparr>)"
proof -
  from assms(3) have "filter (\<lambda>p. point_id p \<in> set [pid]) (points (idx s)) = []"
    by (auto simp: filter_empty_conv)
  with assms(1,2) show ?thesis
    by (simp add: get_def and_then_def ensureInitialized_def call_index_def client_retrieve_def
        Let_def rpc_begin_def)
qed

lemma delete_absent:
  assumes "initialized s" "online (idx s)" "\<forall>p\<in>set (points (idx s)). point_id p \<noteq> pid"
  shows "fst (delete cfg pid s) = Inr ()" and "points (idx (snd (delete cfg pid s))) = points (idx s)"
proof -
  from assms(3) have "filter (\<lambda>p. point_id p \<notin> set [pid]) (points (idx s)) = points (idx s)"
    by (auto intro: filter_True)
  with assms(1,2) show "fst (delete cfg pid s) = Inr ()"
    and "points (idx (snd (delete cfg pid s))) = points (idx s)"
    by (simp_all add: delete_def and_then_def ensureInitialized_def call_index_def client_delete_def
        Let_def rpc_begin_def)
qed

lemma memoryDeleteHandler_success:
  assumes "r_success (fst (memoryDeleteHandler env args s))"
  shows "\<exists>pid. parse_id_input args = Inr pid \<and>
           initialized (snd (memoryDeleteHandler env args s)) \<and>
           online (idx (snd (memoryDeleteHandler env args s))) \<and>
           (\<forall>p\<in>set (points (idx (snd (memoryDeleteHandler env args s)))). point_id p \<noteq> pid)"
proof (cases "parse_id_input args")
  case (Inl issues)
  with assms show ?thesis
    by (simp add: memoryDeleteHandler_def validationError_def errorResponse_def)
next
  case (Inr pid)
  obtain g s1 where g: "get (te_config env) pid (te_now env) s = (g, s1)" by force
  show ?thesis
  proof (cases g)
    case (Inl err)
    with assms Inr g show ?thesis
      by (simp add: memoryDeleteHandler_def errorResponse_def)
  next
    case gr: (Inr found)
    show ?thesis
    proof (cases found)
      case None
      with assms Inr g gr show ?thesis
        by (simp add: memoryDeleteHandler_def notFoundError_def errorResponse_def)
    next
      case (Some existing)
      obtain d s2 where d: "delete (te_config env) pid s1 = (d, s2)" by force
      show ?thesis
      proof (cases d)
        case (Inl err)
        with assms Inr g gr Some d show ?thesis
          by (simp add: memoryDeleteHandler_def errorResponse_def)
      next
        case dr: (Inr u)
        from d dr have "delete (te_config env) pid s1 = (Inr u, s2)" by simp
        from delete_Inr[OF this] Inr g gr Some d dr show ?thesis
          by (simp add: memoryDeleteHandler_def)
      qed
    qed
  qed
qed

lemma memoryGetHandler_absent:
  assumes "parse_id_input args = Inr pid" "initialized s" "online (idx s)"
    "\<forall>p\<in>set (points (idx s)). point_id p \<noteq> pid"
  shows "memoryGetHandler env args s
      = (notFoundError (''Memory with ID '' @ pid), s\<lparr>idx := rpc_begin (RetrievePoints [pid]) (idx s)\<rparr>)"
  using assms(1) by (simp add: memoryGetHandler_def get_absent[OF assms(2,3,4)])

lemma memoryDeleteHandler_absent:
  assumes "parse_id_input args = Inr pid" "initialized s" "online (idx s)"
    "\<forall>p\<in>set (points (idx s)). point_id p \<noteq> pid"
  shows "memoryDeleteHandler env args s
      = (notFoundError (''Memory with ID '' @ pid), s\<lparr>idx := rpc_begin (RetrievePoints [pid]) (idx s)\<rparr>)"
  using assms(1) by (simp add: memoryDeleteHandler_def get_absent[OF assms(2,3,4)])

lemma notFoundError_fields:
  "r_success (notFoundError r) = False" "r_error_type (notFoundError r) = Some NOT_FOUND_ERROR"
  by (simp_all add: notFoundError_def errorResponse_def)

text \<open>Claim C3. After a delete of \<open>id\<close> through the handler has succeeded, a get of \<open>id\<close> answers
  \<open>NOT_FOUND_ERROR\<close>; a further delete of \<open>id\<close> through the handler leaves the stored points
  unchanged and answers \<open>NOT_FOUND_ERROR\<close> as well, since the handler looks the memory up first;
  \<open>QdrantService.delete\<close> itself, called on the absent \<open>id\<close>, returns without error and leaves
  the stored points unchanged.\<close>

theorem delete_then_get_not_found:
  assumes "r_success (fst (memoryDeleteHandler env args s))"
    and "parse_id_input args = Inr pid"
  shows "r_success (fst (memoryGetHandler env' args (snd (memoryDeleteHandler env args s)))) = False \<and>
         r_error_type (fst (memoryGetHandler env' args (snd (memoryDeleteHandler env args s))))
           = Some NOT_FOUND_ERROR \<and>
         r_success (fst (memoryDeleteHandler env' args (snd (memoryDeleteHandler env args s)))) = False \<and>
         r_error_type (fst (memoryDeleteHandler env' args (snd (memoryDeleteHandler env args s))))
           = Some NOT_FOUND_ERROR \<and>
         points (idx (snd (memoryDeleteHandler env' args (snd (memoryDeleteHandler env args s)))))
           = points (idx (snd (memoryDeleteHandler env args s))) \<and>
         fst (delete cfg pid (snd (memoryDeleteHandler env args s))) = Inr () \<and>
         points (idx (snd (delete cfg pid (snd (memoryDeleteHandler env args s)))))
           = points (idx (snd (memoryDeleteHandler env args s)))"
proof -
  define s1 where "s1 = snd (memoryDeleteHandler env args s)"
  from memoryDeleteHandler_success[OF assms(1)] assms(2)
  have i: "initialized s1" and o: "online (idx s1)"
    and a: "\<forall>p\<in>set (points (idx s1)). point_id p \<noteq> pid"
    by (auto simp: s1_def)
  have "r_success (fst (memoryGetHandler env' args s1)) = False"
    "r_error_type (fst (memoryGetHandler env' args s1)) = Some NOT_FOUND_ERROR"
    "r_success (fst (memoryDeleteHandler env' args s1)) = False"
    "r_error_type (fst (memoryDeleteHandler env' args s1)) = Some NOT_FOUND_ERROR"
    "points (idx (snd (memoryDeleteHandler env' args s1))) = points (idx s1)"
    by (simp_all add: memoryGetHandler_absent[OF assms(2) i o a]
        memoryDeleteHandler_absent[OF assms(2) i o a] notFoundError_fields rpc_begin_def)
  moreover note delete_absent[OF i o a, of cfg]
  ultimately show ?thesis
    unfolding s1_def by blast
qed

text \<open>Deleting the expired point of a collection of two.\<close>

theorem delete_then_get_not_found_witness:
  "r_success (fst (memoryDeleteHandler example_tool_env (id_args example_id)
       (ready_state [expired_point, lasting_point]))) \<and>
   parse_id_input (id_args example_id) = Inr example_id \<and>
   r_error_type (fst (memoryGetHandler example_tool_env (id_args example_id)
       (snd (memoryDeleteHandler example_tool_env (id_args example_id)
          (ready_state [expired_point, lasting_point]))))) = Some NOT_FOUND_ERROR"
proof -
  have p: "parse_id_input (id_args example_id) = Inr example_id"
    by code_simp
  have r: "r_success (fst (memoryDeleteHandler example_tool_env (id_args example_id)
       (ready_state [expired_point, lasting_point])))"
    by code_simp
  from delete_then_get_not_found[OF r p, of example_tool_env] p r show ?thesis
    by blast
qed

text \<open>The second delete of the same id through the handler is answered with an error.\<close>

theorem second_delete_reports_not_found:
  "r_success (fst (memoryDeleteHandler example_tool_env (id_args example_id)
       (ready_state [expired_point, lasting_point]))) \<and>
   r_success (fst (memoryDeleteHandler example_tool_env (id_args example_id)
       (snd (memoryDeleteHandler example_tool_env (id_args example_id)
          (ready_state [expired_point, lasting_point]))))) = False \<and>
   r_error_type (fst (memoryDeleteHandler example_tool_env (id_args example_id)
       (snd (memoryDeleteHandler example_tool_env (id_args example_id)
          (ready_state [expired_point, lasting_point]))))) = Some NOT_FOUND_ERROR"
  by code_simp

end
